theory Spec2Isabelle
  imports Complex_Main "HOL-Library.AList" "HOL-Library.Multiset"
begin

section \<open>Data model\<close>

text \<open>
  A shallow embedding of \<^verbatim>\<open>server/ladder_service/ladder_service.py\<close> (class
  \<^verbatim>\<open>LadderService\<close>) and of the player-option accessors of
  \<^verbatim>\<open>src/games/game.py\<close>.  Python objects that are shared and mutated (players,
  searches) live in heaps indexed by references; a Python name with a leading underscore
  is written with the prefix \<open>priv_\<close>.
\<close>

type_synonym player_ref = nat
type_synonym search_ref = nat
type_synonym game_ref = nat

text \<open>
  Every exception the modelled code raises or lets through.  \<open>TimeoutError\<close> stands for an
  \<^verbatim>\<open>asyncio.TimeoutError\<close> that is not a \<^verbatim>\<open>NotConnectedError\<close> (its subclass);
  \<open>CancelledError\<close> and \<open>OtherBaseException\<close> are the exceptions outside the
  \<^verbatim>\<open>Exception\<close> hierarchy.
\<close>

datatype error =
    NotConnectedError "player_ref list"
  | GameClosedError player_ref
  | TimeoutError
  | CancelledError
  | AssertionError
  | IndexError
  | KeyError
  | AttributeError
  | UnboundLocalError
  | RuntimeError string
  | OtherException string
  | OtherBaseException string

fun is_Exception :: "error \<Rightarrow> bool" where
  "is_Exception CancelledError = False"
| "is_Exception (OtherBaseException n) = False"
| "is_Exception e = True"

text \<open>
  Modelled from the spec: the class \<^verbatim>\<open>PlayerState\<close> is not among the sources; a player's
  state is one of idle, searching, starting, playing.
\<close>

datatype PlayerState = IDLE | PLAYING | SEARCHING_LADDER | STARTING_AUTOMATCH

text \<open>The messages of the player message surface, as the dictionaries the code builds.\<close>

datatype message =
    Search_timeout "(nat \<times> string) list"
  | Search_info string string
  | Notice string string
  | Match_found string
  | Match_cancelled "nat option"

record GameLaunchOptions =
  mapname :: string
  expected_players :: nat
  game_options :: "(string \<times> string) list option"
  team :: "int option"
  faction_option :: "int option"
  map_position :: "int option"

text \<open>One call of \<^verbatim>\<open>lobby_connection.write_launch_game(game, is_host, options)\<close>.\<close>

record launch_game =
  launched_game :: game_ref
  is_host :: bool
  options :: GameLaunchOptions

text \<open>
  A \<^verbatim>\<open>Player\<close> object.  \<open>outbox\<close> lists the arguments of the calls of
  \<^verbatim>\<open>player.write_message\<close>; \<open>lobby_connection\<close> is \<open>None\<close> for a nil connection and
  otherwise lists the launches written to the connection.  \<open>ratings\<close> gives
  (mean, deviation) per rating type; ratings are floats in the source and exact reals here.
\<close>

record player =
  player_id :: nat
  login :: string
  state :: PlayerState
  ratings :: "string \<Rightarrow> real \<times> real"
  faction :: int
  lobby_connection :: "launch_game list option"
  outbox :: "message list"
  game :: "game_ref option"

text \<open>
  A \<^verbatim>\<open>Search\<close> object as \<^verbatim>\<open>start_search\<close> constructs it.  Modelled from the spec:
  \<^verbatim>\<open>Search.cancel()\<close> is not among the sources; it sets the cancellation flag.
\<close>

record search =
  search_players :: "player_ref list"
  search_rating_type :: string
  search_queue :: string
  is_cancelled :: bool

record Map_entry =
  map_id :: nat
  display_name :: string
  filename :: string
  weight :: nat

record MapPool =
  pool_id :: nat
  pool_name :: string
  pool_maps :: "Map_entry list"

text \<open>
  A \<^verbatim>\<open>MatchmakerQueue\<close> object with the attributes \<^verbatim>\<open>update_data\<close> reads and
  writes.  Modelled from the spec: \<open>map_pools\<close> is the ordered list of (pool, min_rating,
  max_rating) that \<^verbatim>\<open>add_map_pool\<close> extends and \<^verbatim>\<open>map_pools.clear()\<close> empties.
\<close>

record MatchmakerQueue =
  queue_name :: string
  queue_id :: nat
  featured_mod :: string
  rating_type :: string
  team_size :: nat
  params :: "string option"
  rating_peak :: real
  map_pools :: "(MapPool \<times> real option \<times> real option) list"

text \<open>
  Modelled from the spec: the class \<^verbatim>\<open>Violation\<close> is not among the sources; a violation
  records when the player offended and when the ban expires (seconds).
\<close>

record Violation =
  time_offended :: int
  ban_expires_at :: int

datatype MatchLaunch = SUCCESSFUL | TIMED_OUT | ABORTED_BY_PLAYER | ERRORED

datatype InitMode = NORMAL_LOBBY | AUTO_LOBBY

text \<open>
  The game object that \<^verbatim>\<open>game_service.create_game\<close> returns.  \<open>player_options\<close> is
  \<^verbatim>\<open>_player_options\<close>, from a player id to the dictionary of that player's options (all
  option values written here are integers).  The class \<^verbatim>\<open>LadderGame\<close> is not among the
  sources, so whether \<^verbatim>\<open>_player_options[id]\<close> creates an empty dictionary for an
  unknown id (a \<^verbatim>\<open>defaultdict(dict)\<close>) or raises \<^verbatim>\<open>KeyError\<close> (the plain dictionary
  that \<^verbatim>\<open>Game.__init__\<close> of \<^verbatim>\<open>game.py\<close> sets up) is the field \<open>missing_id_creates\<close>.
\<close>

record LadderGame =
  game_id :: nat
  player_options :: "nat \<rightharpoonup> (string \<rightharpoonup> int)"
  missing_id_creates :: bool
  gameOptions :: "(string \<times> string) list"
  init_mode :: InitMode
  map_file_path :: string
  game_name :: string

datatype log_record =
    Warn_few_ratings nat string
  | Warn_rating_peak string real
  | Info_rating_peak string real
  | Warn_empty_map_pool string string
  | Info_setup_timed_out
  | Info_player_closed player_ref
  | Exception_start_failed
  | Info_failed_to_connect "player_ref list"
  | Exception_pop_timer
  | Error_popping_stopped

text \<open>
  The service together with the objects it refers to.  \<open>searches\<close> is the dictionary
  \<^verbatim>\<open>_searches\<close> (a \<^verbatim>\<open>defaultdict(dict)\<close>: a player without an entry has the empty
  dictionary); dictionaries whose order of keys the code iterates are association lists.
  \<open>tasks\<close> lists the searches handed to \<^verbatim>\<open>queue.search\<close> by
  \<^verbatim>\<open>asyncio.create_task\<close>, \<open>registered_violations\<close> the arguments of
  \<^verbatim>\<open>violation_service.register_violations\<close>, \<open>finished_games\<close> the games whose
  \<^verbatim>\<open>on_game_finish\<close> was awaited, \<open>matches_metric\<close> and \<open>rating_peak_gauge\<close> the
  metric updates, \<open>logger\<close> the log records of warning level and above (and the
  rating-peak info record).
\<close>

record ladder_service =
  is_running :: bool
  informed_players :: "player_ref set"
  queues :: "(string \<times> MatchmakerQueue) list"
  searches :: "player_ref \<Rightarrow> (string \<times> search_ref) list"
  player_heap :: "player_ref \<Rightarrow> player"
  search_heap :: "search_ref \<Rightarrow> search"
  search_count :: nat
  game_heap :: "game_ref \<Rightarrow> LadderGame"
  game_count :: nat
  tasks :: "(string \<times> search_ref) list"
  registered_violations :: "player_ref list list"
  finished_games :: "game_ref list"
  matches_metric :: "(string \<times> MatchLaunch) list"
  rating_peak_gauge :: "(string \<times> real) list"
  logger :: "log_record list"

text \<open>
  The collaborators that are not among the sources, as parameters: the formatting
  functions of the libraries, the clock, the violation service's query, and the rating
  journal of the database (rows (mean_before, deviation_before) per rating type, newest
  first).  \<open>new_queue_rating_peak\<close> is the \<open>rating_peak\<close> the constructor of
  \<^verbatim>\<open>MatchmakerQueue\<close> leaves in a new queue.  For the launch of a game:
  \<open>query_game_history player_id queue_id limit\<close> is the result of one history query (or
  the exception it raises), \<open>displayed\<close> the displayed rating of a (mean, deviation),
  \<open>get_map_pool_for_rating\<close>, \<open>get_game_options\<close>, \<open>choose_map\<close> (the chosen map's path)
  and \<open>create_game\<close> (given the host, the queue and the number of players) the methods of
  the queue, the pool and the game service, \<open>make_game_name\<close> the function
  \<^verbatim>\<open>game_name\<close>, \<open>shuffle\<close> the outcome of \<^verbatim>\<open>random.shuffle\<close>, \<open>match_mapname\<close> the
  group that \<^verbatim>\<open>re.match("maps/(.+).zip", path)\<close> captures (\<open>None\<close> without a match).
  \<open>wait_hosted game timeout\<close> and \<open>wait_launched game timeout\<close> are the two awaits on the
  game: they return or raise (\<open>TimeoutError\<close> after the timeout), and while the launcher
  is suspended the rest of the server may change the service and its objects.
  \<open>get_connected_players\<close> is the game's method of that name.
\<close>

record externals =
  format_0f :: "real \<Rightarrow> string"
  isoformat :: "int \<Rightarrow> string"
  naturaldelta :: "int \<Rightarrow> string"
  now :: int
  get_violations :: "player_ref list \<Rightarrow> (player_ref \<times> Violation) list"
  rating_journal :: "string \<Rightarrow> (real \<times> real) list"
  new_queue_rating_peak :: real
  ladder_anti_repetition_limit :: nat
  query_game_history :: "nat \<Rightarrow> nat \<Rightarrow> nat \<Rightarrow> error + nat list"
  displayed :: "real \<times> real \<Rightarrow> real"
  get_map_pool_for_rating :: "MatchmakerQueue \<Rightarrow> real \<Rightarrow> MapPool option"
  choose_map :: "MapPool \<Rightarrow> nat list \<Rightarrow> error + string"
  create_game :: "player_ref \<Rightarrow> MatchmakerQueue \<Rightarrow> nat \<Rightarrow> error + LadderGame"
  make_game_name :: "player_ref list \<Rightarrow> player_ref list \<Rightarrow> string"
  shuffle :: "(player_ref \<times> player_ref) list \<Rightarrow> (player_ref \<times> player_ref) list"
  get_game_options :: "MatchmakerQueue \<Rightarrow> (string \<times> string) list option"
  match_mapname :: "string \<Rightarrow> string option"
  wait_hosted :: "game_ref \<Rightarrow> nat \<Rightarrow> ladder_service \<Rightarrow> (error + unit) \<times> ladder_service"
  wait_launched :: "game_ref \<Rightarrow> nat \<Rightarrow> ladder_service \<Rightarrow> (error + unit) \<times> ladder_service"
  get_connected_players :: "game_ref \<Rightarrow> ladder_service \<Rightarrow> player_ref list"

section \<open>Messages and rating progress\<close>

definition update_player :: "player_ref \<Rightarrow> (player \<Rightarrow> player) \<Rightarrow> ladder_service \<Rightarrow> ladder_service" where
  "update_player p f s = s\<lparr>player_heap := (player_heap s)(p := f (player_heap s p))\<rparr>"

definition write_message :: "player_ref \<Rightarrow> message \<Rightarrow> ladder_service \<Rightarrow> ladder_service" where
  "write_message p msg s = update_player p (\<lambda>pl. pl\<lparr>outbox := outbox pl @ [msg]\<rparr>) s"

definition welcome_text :: string where
  "welcome_text =
     ''<i>Welcome to the matchmaker</i><br><br><b>Until '' @
     ''you've played enough games for the system to learn '' @
     ''your skill level, you'll be matched randomly.</b><br>'' @
     ''Afterwards, you'll be more reliably matched up with '' @
     ''people of your skill level: so don't worry if your '' @
     ''first few games are uneven. This will improve as you '' @
     ''play!</b>''"

definition calibration_text :: "string \<Rightarrow> string" where
  "calibration_text progress =
     ''The matchmaking system is calibrating your skill level; '' @
     ''your first few games may be slightly more imbalanced '' @
     ''as the system attempts to learn your capability as a player.'' @
     ''<br><br>'' @
     ''<b>The learning phase is '' @ progress @ ''% completed</b>''"

definition write_rating_progress ::
  "externals \<Rightarrow> player_ref \<Rightarrow> string \<Rightarrow> ladder_service \<Rightarrow> ladder_service" where
  "write_rating_progress ext p rt s =
     (if p \<notin> informed_players s then
        (let s1 = s\<lparr>informed_players := insert p (informed_players s)\<rparr>;
             deviation = snd (ratings (player_heap s1 p) rt)
         in if deviation > 490 then
              write_message p (Notice ''info'' welcome_text) s1
            else if deviation > 250 then
              (let progress = (500 - deviation) / 2.5
               in write_message p
                    (Notice ''info'' (calibration_text (format_0f ext progress))) s1)
            else s1)
      else s)"

section \<open>Cancelling searches\<close>

text \<open>
  A call that raises leaves the service as it has changed it so far: the functions of this
  section return the outcome of the call together with the service at its end.

  \<^verbatim>\<open>del self._searches[player][queue_name]\<close> for each player of a search: a missing key
  raises \<^verbatim>\<open>KeyError\<close>.
\<close>

fun del_searches ::
  "string \<Rightarrow> player_ref list \<Rightarrow> (player_ref \<Rightarrow> (string \<times> search_ref) list)
   \<Rightarrow> (error + unit) \<times> (player_ref \<Rightarrow> (string \<times> search_ref) list)" where
  "del_searches q [] tbl = (Inr (), tbl)"
| "del_searches q (p # ps) tbl =
     (if q \<in> fst ` set (tbl p) then del_searches q ps (tbl(p := AList.delete q (tbl p)))
      else (Inl KeyError, tbl))"

definition priv_clear_search ::
  "player_ref \<Rightarrow> string \<Rightarrow> ladder_service \<Rightarrow> (error + search_ref option) \<times> ladder_service" where
  "priv_clear_search initiator qn s =
     (case map_of (searches s initiator) qn of
        None \<Rightarrow> (Inr None, s)
      | Some r \<Rightarrow>
          (case del_searches qn (search_players (search_heap s r)) (searches s) of
             (Inl e, tbl) \<Rightarrow> (Inl e, s\<lparr>searches := tbl\<rparr>)
           | (Inr u, tbl) \<Rightarrow> (Inr (Some r), s\<lparr>searches := tbl\<rparr>)))"

definition notify_stopped :: "string \<Rightarrow> player_ref \<Rightarrow> ladder_service \<Rightarrow> ladder_service" where
  "notify_stopped qn p s =
     (let s1 = write_message p (Search_info qn ''stop'') s
      in if searches s1 p = [] \<and> state (player_heap s1 p) = SEARCHING_LADDER
         then update_player p (\<lambda>pl. pl\<lparr>state := IDLE\<rparr>) s1
         else s1)"

definition priv_cancel_search ::
  "player_ref \<Rightarrow> string \<Rightarrow> ladder_service \<Rightarrow> (error + unit) \<times> ladder_service" where
  "priv_cancel_search initiator qn s =
     (case priv_clear_search initiator qn s of
        (Inl e, s1) \<Rightarrow> (Inl e, s1)
      | (Inr None, s1) \<Rightarrow> (Inr (), s1)
      | (Inr (Some r), s1) \<Rightarrow>
          (let s2 = s1\<lparr>search_heap :=
                       (search_heap s1)(r := (search_heap s1 r)\<lparr>is_cancelled := True\<rparr>)\<rparr>
           in (Inr (), fold (notify_stopped qn) (search_players (search_heap s2 r)) s2)))"

fun cancel_each ::
  "player_ref \<Rightarrow> string list \<Rightarrow> ladder_service \<Rightarrow> (error + unit) \<times> ladder_service" where
  "cancel_each initiator [] s = (Inr (), s)"
| "cancel_each initiator (qn # qns) s =
     (case priv_cancel_search initiator qn s of
        (Inl e, s1) \<Rightarrow> (Inl e, s1)
      | (Inr u, s1) \<Rightarrow> cancel_each initiator qns s1)"

definition cancel_search ::
  "player_ref \<Rightarrow> string option \<Rightarrow> ladder_service \<Rightarrow> (error + unit) \<times> ladder_service" where
  "cancel_search initiator queue_name_opt s =
     (let queue_names = (case queue_name_opt of
                           None \<Rightarrow> map fst (searches s initiator)
                         | Some qn \<Rightarrow> [qn])
      in cancel_each initiator queue_names s)"

text \<open>
  \<^verbatim>\<open>on_connection_lost(conn)\<close>; the argument is \<^verbatim>\<open>conn.player\<close>, \<open>None\<close> when the
  connection has no player.
\<close>

definition on_connection_lost ::
  "player_ref option \<Rightarrow> ladder_service \<Rightarrow> (error + unit) \<times> ladder_service" where
  "on_connection_lost conn_player s =
     (case conn_player of
        None \<Rightarrow> (Inr (), s)
      | Some p \<Rightarrow>
          (case cancel_search p None s of
             (Inl e, s1) \<Rightarrow> (Inl e, s1)
           | (Inr u, s1) \<Rightarrow>
               (Inr (), s1\<lparr>searches := (searches s1)(p := []),
                           informed_players := informed_players s1 - {p}\<rparr>)))"

section \<open>Starting a search\<close>

definition get_ban_expiration :: "Violation \<Rightarrow> int" where
  "get_ban_expiration v = ban_expires_at v"

text \<open>Modelled from the spec: the remaining ban time of a violation, at the clock's time.\<close>

definition get_remaining :: "externals \<Rightarrow> Violation \<Rightarrow> int" where
  "get_remaining ext v = ban_expires_at v - now ext"

text \<open>Python's \<^verbatim>\<open>max(xs, key=...)\<close> on a list with first element \<open>best\<close>: the first maximal element.\<close>

fun max_by_key :: "('a \<Rightarrow> int) \<Rightarrow> 'a \<Rightarrow> 'a list \<Rightarrow> 'a" where
  "max_by_key key best [] = best"
| "max_by_key key best (x # xs) = max_by_key key (if key x > key best then x else best) xs"

text \<open>\<^verbatim>\<open>sep.join(xs)\<close>.\<close>

fun join :: "string \<Rightarrow> string list \<Rightarrow> string" where
  "join sep [] = []"
| "join sep [x] = x"
| "join sep (x # y # ys) = x @ sep @ join sep (y # ys)"

definition timeout_times ::
  "externals \<Rightarrow> ladder_service \<Rightarrow> (player_ref \<times> Violation) list \<Rightarrow> (nat \<times> string) list" where
  "timeout_times ext s timeouts =
     map (\<lambda>(p, violation). (player_id (player_heap s p),
                             isoformat ext (get_ban_expiration violation))) timeouts"

definition timeout_notice ::
  "externals \<Rightarrow> ladder_service \<Rightarrow> (nat \<times> string) list \<Rightarrow> player_ref \<times> Violation
   \<Rightarrow> (player_ref \<times> Violation) list \<Rightarrow> message" where
  "timeout_notice ext s tms t ts =
     (let plural = (if length tms = 1 then [] else ''s'');
          are = (if length tms = 1 then ''is'' else ''are'');
          names = join '', '' (map (\<lambda>(p, violation). login (player_heap s p)) (t # ts));
          max_time = naturaldelta ext
                       (get_remaining ext (max_by_key get_ban_expiration (snd t) (map snd ts)))
      in Notice ''info''
           (''Player'' @ plural @ '' '' @ names @ '' '' @ are @ '' timed out for '' @ max_time))"

text \<open>The body of the loop over the party when the violation service reports timeouts \<open>t # ts\<close>.\<close>

definition notify_timed_out ::
  "externals \<Rightarrow> string \<Rightarrow> (nat \<times> string) list \<Rightarrow> player_ref \<times> Violation
   \<Rightarrow> (player_ref \<times> Violation) list \<Rightarrow> player_ref \<Rightarrow> ladder_service \<Rightarrow> ladder_service" where
  "notify_timed_out ext qn tms t ts p s =
     (let s1 = write_message p (Search_timeout tms) s;
          s2 = write_message p (Search_info qn ''stop'') s1
      in write_message p (timeout_notice ext s2 tms t ts) s2)"

text \<open>Cancel any existing searches that the players have for this queue.\<close>

fun cancel_existing :: "string \<Rightarrow> player_ref list \<Rightarrow> ladder_service \<Rightarrow> error + ladder_service" where
  "cancel_existing qn [] s = Inr s"
| "cancel_existing qn (p # ps) s =
     (if qn \<in> fst ` set (searches s p) then
        (case priv_cancel_search p qn s of
           (Inl e, s1) \<Rightarrow> Inl e
         | (Inr u, s1) \<Rightarrow> cancel_existing qn ps s1)
      else cancel_existing qn ps s)"

definition enroll ::
  "externals \<Rightarrow> string \<Rightarrow> string \<Rightarrow> search_ref \<Rightarrow> player_ref \<Rightarrow> ladder_service \<Rightarrow> ladder_service" where
  "enroll ext qn rt r p s =
     (let s1 = update_player p (\<lambda>pl. pl\<lparr>state := SEARCHING_LADDER\<rparr>) s;
          s2 = write_rating_progress ext p rt s1;
          s3 = write_message p (Search_info qn ''start'') s2
      in s3\<lparr>searches := (searches s3)(p := AList.update qn r (searches s3 p))\<rparr>)"

definition start_search ::
  "externals \<Rightarrow> player_ref list \<Rightarrow> string \<Rightarrow> ladder_service \<Rightarrow> error + ladder_service" where
  "start_search ext players qn s =
     (case get_violations ext players of
        t # ts \<Rightarrow>
          (let tms = timeout_times ext s (t # ts)
           in Inr (fold (notify_timed_out ext qn tms t ts) players s))
      | [] \<Rightarrow>
          (case cancel_existing qn players s of
             Inl e \<Rightarrow> Inl e
           | Inr s1 \<Rightarrow>
               (case map_of (queues s1) qn of
                  None \<Rightarrow> Inl KeyError
                | Some queue \<Rightarrow>
                    (let r = search_count s1;
                         s2 = s1\<lparr>search_heap := (search_heap s1)
                                  (r := \<lparr>search_players = players,
                                         search_rating_type = rating_type queue,
                                         search_queue = qn,
                                         is_cancelled = False\<rparr>),
                                 search_count := Suc r\<rparr>;
                         s3 = fold (enroll ext qn (rating_type queue) r) players s2
                     in Inr (s3\<lparr>tasks := tasks s3 @ [(qn, r)]\<rparr>)))))"

section \<open>A process lifetime of rating-progress calls\<close>

text \<open>
  The events that touch the informed set or a player's rating: a call of
  \<^verbatim>\<open>write_rating_progress\<close>, a change of a player's rating by the rating service, and a
  lost connection.  An exception that \<^verbatim>\<open>on_connection_lost\<close> raises goes to its caller,
  and the service lives on as the call left it: \<open>run_event\<close> is the service after the
  call, returned or raised.
\<close>

datatype event =
    Write_rating_progress player_ref string
  | Set_rating player_ref string real real
  | Connection_lost "player_ref option"

fun run_event :: "externals \<Rightarrow> event \<Rightarrow> ladder_service \<Rightarrow> ladder_service" where
  "run_event ext (Write_rating_progress p rt) s = write_rating_progress ext p rt s"
| "run_event ext (Set_rating p rt m d) s =
     update_player p (\<lambda>pl. pl\<lparr>ratings := (ratings pl)(rt := (m, d))\<rparr>) s"
| "run_event ext (Connection_lost c) s = snd (on_connection_lost c s)"

fun run_events :: "externals \<Rightarrow> event list \<Rightarrow> ladder_service \<Rightarrow> ladder_service" where
  "run_events ext [] s = s"
| "run_events ext (e # es) s = run_events ext es (run_event ext e s)"

fun is_notice :: "message \<Rightarrow> bool" where
  "is_notice (Notice style txt) = True"
| "is_notice m = False"

definition notices :: "player_ref \<Rightarrow> ladder_service \<Rightarrow> message list" where
  "notices p s = filter is_notice (outbox (player_heap s p))"

text \<open>
  A step of the service that leaves the informed set as it is and writes no notice: every
  outbox is extended by messages that are not notices.
\<close>

definition writes_no_notice :: "ladder_service \<Rightarrow> ladder_service \<Rightarrow> bool" where
  "writes_no_notice s s' \<longleftrightarrow>
     informed_players s' = informed_players s \<and>
     (\<forall>p. \<exists>ms. outbox (player_heap s' p) = outbox (player_heap s p) @ ms
               \<and> filter is_notice ms = [])"

text \<open>The service as \<^verbatim>\<open>__init__\<close> leaves it, over a given heap of players and searches.\<close>

definition init_service :: "(player_ref \<Rightarrow> player) \<Rightarrow> (search_ref \<Rightarrow> search) \<Rightarrow> ladder_service" where
  "init_service ph sh =
     \<lparr>is_running = True, informed_players = {}, queues = [], searches = (\<lambda>p. []),
      player_heap = ph, search_heap = sh, search_count = 0,
      game_heap = (\<lambda>g. \<lparr>game_id = g, player_options = Map.empty, missing_id_creates = True,
                         gameOptions = [], init_mode = NORMAL_LOBBY, map_file_path = [],
                         game_name = []\<rparr>),
      game_count = 0, tasks = [],
      registered_violations = [], finished_games = [], matches_metric = [],
      rating_peak_gauge = [], logger = []\<rparr>"

text \<open>Objects and collaborators for concrete runs.\<close>

definition mk_player :: "nat \<Rightarrow> string \<Rightarrow> real \<Rightarrow> real \<Rightarrow> player" where
  "mk_player i name m d =
     \<lparr>player_id = i, login = name, state = IDLE, ratings = (\<lambda>rt. (m, d)), faction = 1,
      lobby_connection = Some [], outbox = [], game = None\<rparr>"

definition mk_search :: "player_ref list \<Rightarrow> string \<Rightarrow> search" where
  "mk_search ps qn =
     \<lparr>search_players = ps, search_rating_type = ''global'', search_queue = qn,
      is_cancelled = False\<rparr>"

definition ext0 :: externals where
  "ext0 = \<lparr>format_0f = (\<lambda>x. ''?''), isoformat = (\<lambda>t. ''T''), naturaldelta = (\<lambda>d. ''D''),
           now = 0, get_violations = (\<lambda>ps. []), rating_journal = (\<lambda>rt. []),
           new_queue_rating_peak = 1000, ladder_anti_repetition_limit = 3,
           query_game_history = (\<lambda>i q n. Inr []),
           displayed = (\<lambda>r. fst r - 3 * snd r),
           get_map_pool_for_rating =
             (\<lambda>q r. Some \<lparr>pool_id = 1, pool_name = ''pool'', pool_maps = []\<rparr>),
           choose_map = (\<lambda>pool played. Inr ''maps/x.zip''),
           create_game = (\<lambda>host q n.
             Inr \<lparr>game_id = 7, player_options = Map.empty, missing_id_creates = True,
                  gameOptions = [], init_mode = NORMAL_LOBBY, map_file_path = [],
                  game_name = ''Matchmaker Game''\<rparr>),
           make_game_name = (\<lambda>t1 t2. ''a Vs b''),
           shuffle = rev,
           get_game_options = (\<lambda>q. None),
           match_mapname = (\<lambda>path. Some ''x''),
           wait_hosted = (\<lambda>g n s. (Inr (), s)),
           wait_launched = (\<lambda>g n s. (Inr (), s)),
           get_connected_players = (\<lambda>g s. [])\<rparr>"

text \<open>Two states that differ at most in the players' outboxes.\<close>

definition same_but_outbox :: "ladder_service \<Rightarrow> ladder_service \<Rightarrow> bool" where
  "same_but_outbox s s' \<longleftrightarrow>
     searches s' = searches s \<and> search_heap s' = search_heap s \<and>
     search_count s' = search_count s \<and> tasks s' = tasks s \<and> queues s' = queues s \<and>
     informed_players s' = informed_players s \<and>
     (\<forall>q. state (player_heap s' q) = state (player_heap s q)
        \<and> login (player_heap s' q) = login (player_heap s q))"

section \<open>Refreshing the queues from the store\<close>

text \<open>\<^verbatim>\<open>statistics.mean\<close> of a non-empty list, over exact reals.\<close>

definition mean :: "real list \<Rightarrow> real" where
  "mean xs = sum_list xs / real (length xs)"

text \<open>
  \<^verbatim>\<open>fetch_rating_peak(rating_type)\<close>; the query's \<^verbatim>\<open>limit(1000)\<close> is applied to the
  journal's rows of the rating type.  Returns the peak and the service with the gauge set
  and the log records appended.
\<close>

definition fetch_rating_peak ::
  "externals \<Rightarrow> string \<Rightarrow> ladder_service \<Rightarrow> real \<times> ladder_service" where
  "fetch_rating_peak ext rt s =
     (let rows = take 1000 (rating_journal ext rt);
          rowcount = length rows;
          peak = (if rowcount > 0
                  then mean (map (\<lambda>(mean_before, deviation_before).
                                    mean_before - 3 * deviation_before) rows)
                  else 1000);
          s1 = s\<lparr>rating_peak_gauge := rating_peak_gauge s @ [(rt, peak)]\<rparr>;
          s2 = (if rowcount < 100
                then s1\<lparr>logger := logger s1 @ [Warn_few_ratings rowcount rt]\<rparr>
                else s1);
          s3 = (if peak < 600 \<or> peak > 1200
                then s2\<lparr>logger := logger s2 @ [Warn_rating_peak rt peak]\<rparr>
                else s2\<lparr>logger := logger s2 @ [Info_rating_peak rt peak]\<rparr>)
      in (peak, s3))"

text \<open>
  One entry of the dictionary that \<^verbatim>\<open>fetch_matchmaker_queues\<close> returns (keys
  \<^verbatim>\<open>id\<close>, \<^verbatim>\<open>mod\<close>, \<^verbatim>\<open>rating_type\<close>, \<^verbatim>\<open>team_size\<close>, \<^verbatim>\<open>params\<close>,
  \<^verbatim>\<open>map_pools\<close>).
\<close>

record queue_info =
  info_id :: nat
  info_mod :: string
  info_rating_type :: string
  info_team_size :: nat
  info_params :: "string option"
  info_map_pools :: "(nat \<times> real option \<times> real option) list"

text \<open>
  The loop over \<^verbatim>\<open>info["map_pools"]\<close>: \<^verbatim>\<open>map_pool_maps[map_pool_id]\<close> raises
  \<^verbatim>\<open>KeyError\<close> for an unknown pool; an empty pool is logged and added all the same.
\<close>

fun add_map_pools ::
  "(nat \<rightharpoonup> string \<times> Map_entry list) \<Rightarrow> string \<Rightarrow> (nat \<times> real option \<times> real option) list
   \<Rightarrow> MatchmakerQueue \<times> log_record list \<Rightarrow> error + MatchmakerQueue \<times> log_record list" where
  "add_map_pools map_pool_maps name [] (queue, logs) = Inr (queue, logs)"
| "add_map_pools map_pool_maps name ((map_pool_id, min_rating, max_rating) # rest) (queue, logs) =
     (case map_pool_maps map_pool_id of
        None \<Rightarrow> Inl KeyError
      | Some (map_pool_name, map_list) \<Rightarrow>
          add_map_pools map_pool_maps name rest
            (queue\<lparr>map_pools := map_pools queue @
                [(\<lparr>pool_id = map_pool_id, pool_name = map_pool_name, pool_maps = map_list\<rparr>,
                  min_rating, max_rating)]\<rparr>,
             if map_list = [] then logs @ [Warn_empty_map_pool map_pool_name name] else logs))"

text \<open>The body of the loop over \<^verbatim>\<open>db_queues.items()\<close>.\<close>

definition refresh_queue ::
  "externals \<Rightarrow> (nat \<rightharpoonup> string \<times> Map_entry list) \<Rightarrow> string \<times> queue_info
   \<Rightarrow> ladder_service \<Rightarrow> error + ladder_service" where
  "refresh_queue ext map_pool_maps entry s =
     (let name = fst entry; info = snd entry;
          (queue, s1) =
            (case map_of (queues s) name of
               None \<Rightarrow>
                 (\<lparr>queue_name = name, queue_id = info_id info, featured_mod = info_mod info,
                   rating_type = info_rating_type info, team_size = info_team_size info,
                   params = info_params info, rating_peak = new_queue_rating_peak ext,
                   map_pools = []\<rparr>, s)
             | Some q \<Rightarrow>
                 (let (peak, s') = fetch_rating_peak ext (info_rating_type info) s
                  in (q\<lparr>featured_mod := info_mod info,
                        rating_type := info_rating_type info,
                        team_size := info_team_size info,
                        rating_peak := peak\<rparr>, s')))
      in case add_map_pools map_pool_maps name (info_map_pools info)
                (queue\<lparr>map_pools := []\<rparr>, logger s1) of
           Inl e \<Rightarrow> Inl e
         | Inr (queue', logs) \<Rightarrow>
             Inr (s1\<lparr>queues := AList.update name queue' (queues s1), logger := logs\<rparr>))"

fun refresh_queues ::
  "externals \<Rightarrow> (nat \<rightharpoonup> string \<times> Map_entry list) \<Rightarrow> (string \<times> queue_info) list
   \<Rightarrow> ladder_service \<Rightarrow> error + ladder_service" where
  "refresh_queues ext map_pool_maps [] s = Inr s"
| "refresh_queues ext map_pool_maps (entry # rest) s =
     (case refresh_queue ext map_pool_maps entry s of
        Inl e \<Rightarrow> Inl e
      | Inr s1 \<Rightarrow> refresh_queues ext map_pool_maps rest s1)"

text \<open>Remove queues that do not exist anymore: the loop over \<^verbatim>\<open>list(self.queues.keys())\<close>.\<close>

fun remove_absent ::
  "string list \<Rightarrow> (string \<times> queue_info) list \<Rightarrow> (string \<times> MatchmakerQueue) list
   \<Rightarrow> (string \<times> MatchmakerQueue) list" where
  "remove_absent [] db_queues qs = qs"
| "remove_absent (qn # qns) db_queues qs =
     remove_absent qns db_queues
       (if qn \<notin> fst ` set db_queues then AList.delete qn qs else qs)"

text \<open>
  \<^verbatim>\<open>update_data\<close>, given what \<^verbatim>\<open>fetch_map_pools\<close> and
  \<^verbatim>\<open>fetch_matchmaker_queues\<close> returned.
\<close>

definition update_data ::
  "externals \<Rightarrow> (nat \<rightharpoonup> string \<times> Map_entry list) \<Rightarrow> (string \<times> queue_info) list
   \<Rightarrow> ladder_service \<Rightarrow> error + ladder_service" where
  "update_data ext map_pool_maps db_queues s =
     (case refresh_queues ext map_pool_maps db_queues s of
        Inl e \<Rightarrow> Inl e
      | Inr s1 \<Rightarrow>
          Inr (s1\<lparr>queues := remove_absent (map fst (queues s1)) db_queues (queues s1)\<rparr>))"

text \<open>Every map pool that a queue of the store refers to is among the fetched pools.\<close>

definition pools_known ::
  "(nat \<rightharpoonup> string \<times> Map_entry list) \<Rightarrow> (string \<times> queue_info) list \<Rightarrow> bool" where
  "pools_known map_pool_maps db_queues \<longleftrightarrow>
     list_all (\<lambda>entry. list_all (\<lambda>pool. map_pool_maps (fst pool) \<noteq> None)
                          (info_map_pools (snd entry))) db_queues"

text \<open>The rating peak that \<^verbatim>\<open>fetch_rating_peak\<close> computes from the journal.\<close>

definition journal_peak :: "externals \<Rightarrow> string \<Rightarrow> real" where
  "journal_peak ext rt =
     (let rows = take 1000 (rating_journal ext rt)
      in if rows = [] then 1000
         else sum_list (map (\<lambda>(m, d). m - 3 * d) rows) / real (length rows))"

text \<open>Objects for concrete runs.\<close>

definition mk_queue :: "string \<Rightarrow> nat \<Rightarrow> real \<Rightarrow> MatchmakerQueue" where
  "mk_queue name n peak =
     \<lparr>queue_name = name, queue_id = 1, featured_mod = ''ladder1v1'', rating_type = ''global'',
      team_size = n, params = None, rating_peak = peak, map_pools = []\<rparr>"

definition mk_info :: "(nat \<times> real option \<times> real option) list \<Rightarrow> queue_info" where
  "mk_info pools =
     \<lparr>info_id = 1, info_mod = ''ladder1v1'', info_rating_type = ''global'', info_team_size = 1,
      info_params = None, info_map_pools = pools\<rparr>"

text \<open>The log records that \<^verbatim>\<open>fetch_rating_peak\<close> is to write for a rating type.\<close>

definition rating_peak_log :: "externals \<Rightarrow> string \<Rightarrow> log_record list" where
  "rating_peak_log ext rt =
     (let n = length (take 1000 (rating_journal ext rt)); peak = journal_peak ext rt
      in (if n < 100 then [Warn_few_ratings n rt] else []) @
         (if peak < 600 \<or> peak > 1200 then [Warn_rating_peak rt peak]
          else [Info_rating_peak rt peak]))"

text \<open>What one step of the loop leaves unchanged.\<close>

definition same_but_queues :: "ladder_service \<Rightarrow> ladder_service \<Rightarrow> bool" where
  "same_but_queues s s' \<longleftrightarrow>
     searches s' = searches s \<and> search_heap s' = search_heap s \<and>
     player_heap s' = player_heap s \<and> tasks s' = tasks s \<and>
     search_count s' = search_count s \<and> informed_players s' = informed_players s \<and>
     (\<exists>l. logger s' = logger s @ l) \<and>
     (\<exists>g. rating_peak_gauge s' = rating_peak_gauge s @ g)"

section \<open>Player options of a game\<close>

text \<open>\<^verbatim>\<open>Game.set_player_option\<close> and \<^verbatim>\<open>Game.get_player_option\<close> of \<^verbatim>\<open>game.py\<close>.\<close>

definition set_player_option :: "nat \<Rightarrow> string \<Rightarrow> int \<Rightarrow> LadderGame \<Rightarrow> LadderGame" where
  "set_player_option i key v g =
     (let opts = (case player_options g i of None \<Rightarrow> Map.empty | Some d \<Rightarrow> d)
      in g\<lparr>player_options := (player_options g)(i \<mapsto> opts(key \<mapsto> v))\<rparr>)"

definition get_player_option :: "LadderGame \<Rightarrow> nat \<Rightarrow> string \<Rightarrow> int option" where
  "get_player_option g i key =
     (case player_options g i of
        None \<Rightarrow> None
      | Some d \<Rightarrow> d key)"

text \<open>
  The direct assignment \<^verbatim>\<open>game._player_options[id][key] = v\<close> of the ladder service.
\<close>

definition assign_player_option :: "nat \<Rightarrow> string \<Rightarrow> int \<Rightarrow> LadderGame \<Rightarrow> error + LadderGame" where
  "assign_player_option i key v g =
     (case player_options g i of
        Some d \<Rightarrow> Inr (g\<lparr>player_options := (player_options g)(i \<mapsto> d(key \<mapsto> v))\<rparr>)
      | None \<Rightarrow>
          if missing_id_creates g
          then Inr (g\<lparr>player_options := (player_options g)(i \<mapsto> [key \<mapsto> v])\<rparr>)
          else Inl KeyError)"

section \<open>Launching a match\<close>

text \<open>The five option assignments for one player of the enumeration.\<close>

definition assign_slot_options ::
  "nat \<Rightarrow> int \<Rightarrow> int \<Rightarrow> int \<Rightarrow> LadderGame \<Rightarrow> error + LadderGame" where
  "assign_slot_options pid fac team_no slot g =
     (case assign_player_option pid ''Faction'' fac g of
        Inl e \<Rightarrow> Inl e
      | Inr g1 \<Rightarrow>
     (case assign_player_option pid ''Team'' team_no g1 of
        Inl e \<Rightarrow> Inl e
      | Inr g2 \<Rightarrow>
     (case assign_player_option pid ''StartSpot'' slot g2 of
        Inl e \<Rightarrow> Inl e
      | Inr g3 \<Rightarrow>
     (case assign_player_option pid ''Army'' slot g3 of
        Inl e \<Rightarrow> Inl e
      | Inr g4 \<Rightarrow> assign_player_option pid ''Color'' slot g4))))"

text \<open>
  The loop \<^verbatim>\<open>for i, player in enumerate(...)\<close> of \<^verbatim>\<open>_start_game\<close>, from index \<open>i\<close> on.
  An exception leaves the service as the loop has changed it so far.
\<close>

fun assign_slots ::
  "game_ref \<Rightarrow> nat \<Rightarrow> player_ref list \<Rightarrow> ladder_service \<Rightarrow> (error + unit) \<times> ladder_service" where
  "assign_slots g i [] s = (Inr (), s)"
| "assign_slots g i (p # ps) s =
     (let slot = int i + 1;
          team_no = int (i mod 2) + 2;
          s1 = update_player p (\<lambda>pl. pl\<lparr>game := Some g\<rparr>) s
      in case assign_slot_options (player_id (player_heap s1 p)) (faction (player_heap s1 p))
                team_no slot (game_heap s1 g) of
           Inl e \<Rightarrow> (Inl e, s1)
         | Inr game' \<Rightarrow>
             assign_slots g (Suc i) ps (s1\<lparr>game_heap := (game_heap s1)(g := game')\<rparr>))"

text \<open>
  The players in slot order: both teams sorted by rating mean (\<^verbatim>\<open>sorted\<close> is stable, as
  \<open>sort_key\<close> is), zipped, the pairs shuffled, and the pairs flattened.
\<close>

definition slot_order ::
  "externals \<Rightarrow> ladder_service \<Rightarrow> string \<Rightarrow> player_ref list \<Rightarrow> player_ref list \<Rightarrow> player_ref list" where
  "slot_order ext s rt team1 team2 =
     (let get_player_mean = (\<lambda>p. fst (ratings (player_heap s p) rt));
          sorted1 = sort_key get_player_mean team1;
          sorted2 = sort_key get_player_mean team2;
          zipped_teams = shuffle ext (zip sorted1 sorted2)
      in concat (map (\<lambda>pair. [fst pair, snd pair]) zipped_teams))"

definition make_game_options ::
  "string \<Rightarrow> nat \<Rightarrow> (string \<times> string) list option \<Rightarrow> game_ref \<Rightarrow> ladder_service \<Rightarrow> player_ref
   \<Rightarrow> GameLaunchOptions" where
  "make_game_options mapname' n_players game_opts g s p =
     \<lparr>mapname = mapname', expected_players = n_players, game_options = game_opts,
      team = get_player_option (game_heap s g) (player_id (player_heap s p)) ''Team'',
      faction_option = get_player_option (game_heap s g) (player_id (player_heap s p)) ''Faction'',
      map_position = get_player_option (game_heap s g) (player_id (player_heap s p)) ''StartSpot''\<rparr>"

text \<open>
  \<^verbatim>\<open>player.lobby_connection.write_launch_game(game, is_host, options)\<close>.  Modelled from
  the spec: the connection class is not among the sources; the call sends the player a
  \<^verbatim>\<open>launch_game\<close> and returns.  On a nil connection the attribute access fails.
\<close>

definition write_launch_game ::
  "player_ref \<Rightarrow> game_ref \<Rightarrow> bool \<Rightarrow> GameLaunchOptions \<Rightarrow> ladder_service
   \<Rightarrow> (error + unit) \<times> ladder_service" where
  "write_launch_game p g host_flag opts s =
     (case lobby_connection (player_heap s p) of
        None \<Rightarrow> (Inl AttributeError, s)
      | Some sent \<Rightarrow>
          (Inr (), update_player p
             (\<lambda>pl. pl\<lparr>lobby_connection :=
                 Some (sent @ [\<lparr>launched_game = g, is_host = host_flag, options = opts\<rparr>])\<rparr>) s))"

text \<open>The loop over the guests in the \<^verbatim>\<open>finally\<close> block, with its assertion.\<close>

fun launch_guests ::
  "game_ref \<Rightarrow> (ladder_service \<Rightarrow> player_ref \<Rightarrow> GameLaunchOptions) \<Rightarrow> player_ref list
   \<Rightarrow> ladder_service \<Rightarrow> (error + unit) \<times> ladder_service" where
  "launch_guests g mk [] s = (Inr (), s)"
| "launch_guests g mk (guest # guests) s =
     (if lobby_connection (player_heap s guest) = None then (Inl AssertionError, s)
      else (case write_launch_game guest g False (mk s guest) s of
              (Inl e, s1) \<Rightarrow> (Inl e, s1)
            | (Inr u, s1) \<Rightarrow> launch_guests g mk guests s1))"

text \<open>\<^verbatim>\<open>isinstance(e, asyncio.TimeoutError)\<close>: \<^verbatim>\<open>NotConnectedError\<close> is a subclass.\<close>

fun is_TimeoutError :: "error \<Rightarrow> bool" where
  "is_TimeoutError TimeoutError = True"
| "is_TimeoutError (NotConnectedError ps) = True"
| "is_TimeoutError e = False"

text \<open>
  \<^verbatim>\<open>launch_match(game, host, guests, make_game_options)\<close>.  The \<^verbatim>\<open>finally\<close> block
  runs after the wait for the host whatever its outcome; an exception it raises replaces
  the pending one, and when it completes the pending exception propagates.
\<close>

definition launch_match ::
  "externals \<Rightarrow> game_ref \<Rightarrow> player_ref \<Rightarrow> player_ref list
   \<Rightarrow> (ladder_service \<Rightarrow> player_ref \<Rightarrow> GameLaunchOptions) \<Rightarrow> ladder_service
   \<Rightarrow> (error + unit) \<times> ladder_service" where
  "launch_match ext g host guests mk s =
     (if lobby_connection (player_heap s host) = None then (Inl (NotConnectedError [host]), s)
      else
        (case write_launch_game host g True (mk s host) s of
           (Inl e, s1) \<Rightarrow> (Inl e, s1)
         | (Inr u, s1) \<Rightarrow>
             (let (hosted, s2) = wait_hosted ext g 60 s1;
                  pending = (case hosted of
                               Inr u \<Rightarrow> None
                             | Inl e \<Rightarrow> if is_TimeoutError e
                                        then Some (NotConnectedError [host]) else Some e);
                  not_connected_guests =
                    filter (\<lambda>player. lobby_connection (player_heap s2 player) = None) guests
              in if not_connected_guests \<noteq> [] then
                   (Inl (NotConnectedError not_connected_guests), s2)
                 else
                   (case launch_guests g mk guests s2 of
                      (Inl e, s3) \<Rightarrow> (Inl e, s3)
                    | (Inr u, s3) \<Rightarrow>
                        (case pending of
                           Some e \<Rightarrow> (Inl e, s3)
                         | None \<Rightarrow>
                             (let (launched, s4) =
                                    wait_launched ext g (60 + 10 * length guests) s3
                              in case launched of
                                   Inr u \<Rightarrow> (Inr (), s4)
                                 | Inl e \<Rightarrow>
                                     if is_TimeoutError e then
                                       (Inl (NotConnectedError
                                          (filter (\<lambda>player. player \<notin>
                                               set (get_connected_players ext g s4)) guests)),
                                        s4)
                                     else (Inl e, s4)))))))"

text \<open>
  \<^verbatim>\<open>get_game_history(players, queue_id, limit)\<close>: one query per player, the results
  concatenated.
\<close>

fun get_game_history ::
  "externals \<Rightarrow> ladder_service \<Rightarrow> player_ref list \<Rightarrow> nat \<Rightarrow> nat \<Rightarrow> error + nat list" where
  "get_game_history ext s [] qid limit = Inr []"
| "get_game_history ext s (p # ps) qid limit =
     (case query_game_history ext (player_id (player_heap s p)) qid limit of
        Inl e \<Rightarrow> Inl e
      | Inr rows \<Rightarrow>
          (case get_game_history ext s ps qid limit of
             Inl e \<Rightarrow> Inl e
           | Inr later \<Rightarrow> Inr (rows @ later)))"

text \<open>
  The \<^verbatim>\<open>try\<close> block of \<^verbatim>\<open>_start_game\<close> up to the creation of the game, for a host
  \<open>host\<close> and \<^verbatim>\<open>all_players\<close>: the map is chosen and the game created.  Returns the new
  game and its map path.
\<close>

definition create_ladder_game ::
  "externals \<Rightarrow> player_ref \<Rightarrow> player_ref list \<Rightarrow> MatchmakerQueue \<Rightarrow> ladder_service
   \<Rightarrow> (error + game_ref \<times> string) \<times> ladder_service" where
  "create_ladder_game ext host all_players queue s =
     (case get_game_history ext s all_players (queue_id queue)
             (ladder_anti_repetition_limit ext) of
        Inl e \<Rightarrow> (Inl e, s)
      | Inr played_map_ids \<Rightarrow>
          (let rating = fold min
                 (map (\<lambda>p. displayed ext (ratings (player_heap s p) (rating_type queue)))
                      all_players)
                 (displayed ext (ratings (player_heap s host) (rating_type queue)))
           in case get_map_pool_for_rating ext queue rating of
                None \<Rightarrow> (Inl (RuntimeError ''No map pool available for rating''), s)
              | Some pool \<Rightarrow>
                  (case choose_map ext pool played_map_ids of
                     Inl e \<Rightarrow> (Inl e, s)
                   | Inr map_path \<Rightarrow>
                       (case create_game ext host queue (length all_players) of
                          Inl e \<Rightarrow> (Inl e, s)
                        | Inr new_game \<Rightarrow>
                            (Inr (game_count s, map_path),
                             s\<lparr>game_heap := (game_heap s)(game_count s := new_game),
                               game_count := Suc (game_count s)\<rparr>)))))"

text \<open>
  The rest of the \<^verbatim>\<open>try\<close> block, once \<open>game\<close> is bound: the game is set up, the slots
  assigned, the queue's game options merged and the match launched.
\<close>

definition setup_and_launch ::
  "externals \<Rightarrow> game_ref \<Rightarrow> string \<Rightarrow> player_ref \<Rightarrow> player_ref list \<Rightarrow> player_ref list
   \<Rightarrow> player_ref list \<Rightarrow> MatchmakerQueue \<Rightarrow> ladder_service \<Rightarrow> (error + unit) \<times> ladder_service" where
  "setup_and_launch ext g map_path host all_players team1 team2 queue s =
     (let all_guests = tl all_players;
          s1 = s\<lparr>game_heap := (game_heap s)
                 (g := (game_heap s g)\<lparr>init_mode := AUTO_LOBBY, map_file_path := map_path,
                                        game_name := make_game_name ext team1 team2\<rparr>)\<rparr>
      in case assign_slots g 0 (slot_order ext s1 (rating_type queue) team1 team2) s1 of
           (Inl e, s2) \<Rightarrow> (Inl e, s2)
         | (Inr u, s2) \<Rightarrow>
             (let game_opts = get_game_options ext queue;
                  s3 = (case game_opts of
                          None \<Rightarrow> s2
                        | Some kvs \<Rightarrow>
                            s2\<lparr>game_heap := (game_heap s2)
                                 (g := (game_heap s2 g)\<lparr>gameOptions :=
                                      fold (\<lambda>kv. AList.update (fst kv) (snd kv)) kvs
                                           (gameOptions (game_heap s2 g))\<rparr>)\<rparr>)
              in case match_mapname ext map_path of
                   None \<Rightarrow> (Inl AttributeError, s3)
                 | Some mapname' \<Rightarrow>
                     (case launch_match ext g host all_guests
                             (make_game_options mapname' (length all_players) game_opts g) s3 of
                        (Inl e, s4) \<Rightarrow> (Inl e, s4)
                      | (Inr u, s4) \<Rightarrow>
                          (Inr (), s4\<lparr>matches_metric :=
                                       matches_metric s4 @ [(queue_name queue, SUCCESSFUL)]\<rparr>))))"

text \<open>
  The whole \<^verbatim>\<open>try\<close> block: its outcome, the local variables \<^verbatim>\<open>game\<close> and
  \<^verbatim>\<open>all_players\<close> as the handler finds them (\<open>None\<close> for \<^verbatim>\<open>game = None\<close> and for an
  unbound \<^verbatim>\<open>all_players\<close>), and the service.
\<close>

definition start_game_try ::
  "externals \<Rightarrow> player_ref list \<Rightarrow> player_ref list \<Rightarrow> MatchmakerQueue \<Rightarrow> ladder_service
   \<Rightarrow> (error + unit) \<times> game_ref option \<times> player_ref list option \<times> ladder_service" where
  "start_game_try ext team1 team2 queue s =
     (case team1 of
        [] \<Rightarrow> (Inl IndexError, None, None, s)
      | host # others \<Rightarrow>
          (let all_players = team1 @ team2
           in case create_ladder_game ext host all_players queue s of
                (Inl e, s1) \<Rightarrow> (Inl e, None, Some all_players, s1)
              | (Inr (g, map_path), s1) \<Rightarrow>
                  (case setup_and_launch ext g map_path host all_players team1 team2 queue s1 of
                     (r, s2) \<Rightarrow> (r, Some g, Some all_players, s2))))"

text \<open>The loop of the handler over \<^verbatim>\<open>all_players\<close>.\<close>

definition cancel_match_for :: "message \<Rightarrow> player_ref \<Rightarrow> ladder_service \<Rightarrow> ladder_service" where
  "cancel_match_for msg p s =
     (let s1 = (if state (player_heap s p) = STARTING_AUTOMATCH
                then update_player p (\<lambda>pl. pl\<lparr>state := IDLE\<rparr>) s
                else s)
      in write_message p msg s1)"

text \<open>
  The handler \<^verbatim>\<open>except Exception as e\<close> of \<^verbatim>\<open>_start_game\<close>; an exception outside the
  \<^verbatim>\<open>Exception\<close> hierarchy passes it by.  Modelled from the spec:
  \<^verbatim>\<open>game.on_game_finish()\<close> and \<^verbatim>\<open>violation_service.register_violations\<close> are not among
  the sources; they return, and the model records the game and the players they were
  called on.
\<close>

definition start_game_failed ::
  "MatchmakerQueue \<Rightarrow> error \<Rightarrow> game_ref option \<Rightarrow> player_ref list option \<Rightarrow> ladder_service
   \<Rightarrow> (error + unit) \<times> ladder_service" where
  "start_game_failed queue e game_local all_players_local s =
     (if \<not> is_Exception e then (Inl e, s)
      else
        (let classified =
               (case e of
                  NotConnectedError ps \<Rightarrow>
                    Inr (ps, s\<lparr>logger := logger s @ [Info_setup_timed_out],
                               matches_metric := matches_metric s @ [(queue_name queue, TIMED_OUT)]\<rparr>)
                | GameClosedError p \<Rightarrow>
                    Inr ([p], s\<lparr>logger := logger s @ [Info_player_closed p],
                                matches_metric :=
                                  matches_metric s @ [(queue_name queue, ABORTED_BY_PLAYER)]\<rparr>)
                | _ \<Rightarrow>
                    if is_TimeoutError e then Inl AssertionError
                    else Inr ([], s\<lparr>logger := logger s @ [Exception_start_failed],
                                    matches_metric :=
                                      matches_metric s @ [(queue_name queue, ERRORED)]\<rparr>))
         in case classified of
              Inl err \<Rightarrow> (Inl err, s)
            | Inr (abandoning_players, s1) \<Rightarrow>
                (let s2 = (case game_local of
                             None \<Rightarrow> s1
                           | Some g \<Rightarrow> s1\<lparr>finished_games := finished_games s1 @ [g]\<rparr>);
                     msg = Match_cancelled
                             (case game_local of
                                None \<Rightarrow> None
                              | Some g \<Rightarrow> Some (game_id (game_heap s2 g)))
                 in case all_players_local of
                      None \<Rightarrow> (Inl UnboundLocalError, s2)
                    | Some all_players \<Rightarrow>
                        (let s3 = fold (cancel_match_for msg) all_players s2
                         in if abandoning_players \<noteq> [] then
                              (Inr (), s3\<lparr>logger := logger s3 @
                                            [Info_failed_to_connect abandoning_players],
                                          registered_violations :=
                                            registered_violations s3 @ [abandoning_players]\<rparr>)
                            else (Inr (), s3)))))"

definition priv_start_game ::
  "externals \<Rightarrow> player_ref list \<Rightarrow> player_ref list \<Rightarrow> MatchmakerQueue \<Rightarrow> ladder_service
   \<Rightarrow> (error + unit) \<times> ladder_service" where
  "priv_start_game ext team1 team2 queue s =
     (case start_game_try ext team1 team2 queue s of
        (Inr u, game_local, all_players_local, s1) \<Rightarrow> (Inr (), s1)
      | (Inl e, game_local, all_players_local, s1) \<Rightarrow>
          start_game_failed queue e game_local all_players_local s1)"

text \<open>\<^verbatim>\<open>start_game\<close>: the assertion on the team sizes, then \<^verbatim>\<open>_start_game\<close>.\<close>

definition start_game ::
  "externals \<Rightarrow> player_ref list \<Rightarrow> player_ref list \<Rightarrow> MatchmakerQueue \<Rightarrow> ladder_service
   \<Rightarrow> (error + unit) \<times> ladder_service" where
  "start_game ext team1 team2 queue s =
     (if length team1 = length team2 then priv_start_game ext team1 team2 queue s
      else (Inl AssertionError, s))"

text \<open>What the handler is to do for an exception, by its kind.\<close>

definition abandoning_players_of :: "error \<Rightarrow> player_ref list" where
  "abandoning_players_of e =
     (case e of NotConnectedError ps \<Rightarrow> ps | GameClosedError p \<Rightarrow> [p] | _ \<Rightarrow> [])"

definition match_launch_of :: "error \<Rightarrow> MatchLaunch" where
  "match_launch_of e =
     (case e of NotConnectedError ps \<Rightarrow> TIMED_OUT | GameClosedError p \<Rightarrow> ABORTED_BY_PLAYER
      | _ \<Rightarrow> ERRORED)"

section \<open>The pop iteration\<close>

text \<open>
  Modelled from the spec: the classes \<^verbatim>\<open>Search\<close> and \<^verbatim>\<open>CombinedSearch\<close> of
  \<^verbatim>\<open>server.matchmaker.search\<close> are not among the sources.  A match is an ordered pair of
  teams, and a team is given by the searches it is composed of (what
  \<^verbatim>\<open>get_original_searches\<close> returns).
\<close>

type_synonym team_searches = "search_ref list"
type_synonym match = "team_searches \<times> team_searches"

definition get_original_searches :: "team_searches \<Rightarrow> search_ref list" where
  "get_original_searches tm = tm"

text \<open>
  The matchmaking collaborators that are not among the sources: the two find methods of
  a queue (they return candidates or raise), the team matchmaker's pick, and the helper
  \<^verbatim>\<open>are_searches_disjoint\<close> of \<^verbatim>\<open>server.matchmaker.search\<close>, which decides for two
  sets of searches whether they collide.
\<close>

record matchmaking =
  find_matches :: "MatchmakerQueue \<Rightarrow> error + match list"
  find_matches1v1 :: "MatchmakerQueue \<Rightarrow> error + match list"
  pick_noncolliding_games :: "match list \<Rightarrow> match list"
  are_searches_disjoint :: "search_ref set \<Rightarrow> search_ref set \<Rightarrow> bool"

text \<open>The set \<^verbatim>\<open>set(search for team in match for search in team.get_original_searches())\<close>.\<close>

definition match_searches :: "match \<Rightarrow> search_ref set" where
  "match_searches m = set (concat (map get_original_searches [fst m, snd m]))"


text \<open>The searches of all teams of all matches of a list.\<close>

definition matches_searches :: "match list \<Rightarrow> search_ref set" where
  "matches_searches ms =
     set (concat (map (\<lambda>m. concat (map get_original_searches [fst m, snd m])) ms))"











section \<open>The pop timer\<close>

text \<open>
  One pass of the loop of \<^verbatim>\<open>_queue_pop_timer\<close> as its surroundings decide it: for each
  of the three awaits (the timer's \<^verbatim>\<open>next_pop\<close>, \<^verbatim>\<open>_queue_pop_iteration\<close>, and the
  \<^verbatim>\<open>asyncio.sleep(1)\<close> of the handler) whether \<^verbatim>\<open>shutdown\<close> runs while the loop is
  suspended there, and the exception the await raises (\<open>None\<close> when it returns).
\<close>

record pop_round =
  shutdown_while_waiting :: bool
  next_pop_result :: "error option"
  shutdown_while_popping :: bool
  pop_result :: "error option"
  shutdown_while_sleeping :: bool
  sleep_result :: "error option"

datatype timer_action =
    Wait_next_pop
  | Pop_iteration
  | Shutdown
  | Log_exception
  | Sleep nat
  | Log_stopped

text \<open>
  How a run of the loop over finitely many passes ends: still suspended in the loop
  (the passes are used up), returned, or left by an exception.
\<close>

datatype loop_status = Suspended | Returned | Raised error

definition shutdown :: "ladder_service \<Rightarrow> ladder_service" where
  "shutdown s = s\<lparr>is_running := False\<rparr>"

definition await_step ::
  "timer_action \<Rightarrow> bool \<Rightarrow> ladder_service \<times> timer_action list \<Rightarrow> ladder_service \<times> timer_action list" where
  "await_step action shut st =
     (if shut then (shutdown (fst st), snd st @ [action, Shutdown])
      else (fst st, snd st @ [action]))"

text \<open>The \<^verbatim>\<open>try\<close> block: the exception it raises, if any.\<close>

definition pop_try ::
  "pop_round \<Rightarrow> ladder_service \<times> timer_action list
   \<Rightarrow> error option \<times> ladder_service \<times> timer_action list" where
  "pop_try r st =
     (let st1 = await_step Wait_next_pop (shutdown_while_waiting r) st
      in case next_pop_result r of
           Some e \<Rightarrow> (Some e, st1)
         | None \<Rightarrow> (pop_result r, await_step Pop_iteration (shutdown_while_popping r) st1))"

definition log_stopped ::
  "ladder_service \<times> timer_action list \<Rightarrow> ladder_service \<times> timer_action list" where
  "log_stopped st =
     ((fst st)\<lparr>logger := logger (fst st) @ [Error_popping_stopped]\<rparr>, snd st @ [Log_stopped])"

fun priv_queue_pop_timer ::
  "pop_round list \<Rightarrow> ladder_service \<times> timer_action list
   \<Rightarrow> loop_status \<times> ladder_service \<times> timer_action list" where
  "priv_queue_pop_timer [] st =
     (if is_running (fst st) then (Suspended, st) else (Returned, log_stopped st))"
| "priv_queue_pop_timer (r # rest) st =
     (if \<not> is_running (fst st) then (Returned, log_stopped st)
      else
        (case pop_try r st of
           (None, st1) \<Rightarrow> priv_queue_pop_timer rest st1
         | (Some e, st1) \<Rightarrow>
             if e = CancelledError then (Returned, log_stopped st1)
             else if is_Exception e then
               (let st2 = ((fst st1)\<lparr>logger := logger (fst st1) @ [Exception_pop_timer]\<rparr>,
                           snd st1 @ [Log_exception]);
                    st3 = await_step (Sleep 1) (shutdown_while_sleeping r) st2
                in case sleep_result r of
                     Some e' \<Rightarrow> (Raised e', st3)
                   | None \<Rightarrow> priv_queue_pop_timer rest st3)
             else (Raised e, st1)))"

text \<open>A pass in which nothing is cancelled and \<^verbatim>\<open>shutdown\<close> does not run.\<close>

definition undisturbed :: "pop_round \<Rightarrow> bool" where
  "undisturbed r \<longleftrightarrow>
     \<not> shutdown_while_waiting r \<and> \<not> shutdown_while_popping r \<and> \<not> shutdown_while_sleeping r
     \<and> sleep_result r = None
     \<and> (case next_pop_result r of None \<Rightarrow> True | Some e \<Rightarrow> is_Exception e)
     \<and> (case pop_result r of None \<Rightarrow> True | Some e \<Rightarrow> is_Exception e)"

text \<open>The exception that the \<^verbatim>\<open>try\<close> block of a pass raises.\<close>

definition round_exception :: "pop_round \<Rightarrow> error option" where
  "round_exception r = (case next_pop_result r of Some e \<Rightarrow> Some e | None \<Rightarrow> pop_result r)"

text \<open>What an undisturbed pass does, in order.\<close>

definition round_actions :: "pop_round \<Rightarrow> timer_action list" where
  "round_actions r =
     [Wait_next_pop] @ (if next_pop_result r = None then [Pop_iteration] else []) @
     (if round_exception r = None then [] else [Log_exception, Sleep 1])"

definition quiet_round :: pop_round where
  "quiet_round =
     \<lparr>shutdown_while_waiting = False, next_pop_result = None, shutdown_while_popping = False,
      pop_result = None, shutdown_while_sleeping = False, sleep_result = None\<rparr>"

(* ==== end of definitions ==== *)

section \<open>Properties of messages and rating progress\<close>

lemma write_message_informed [simp]:
  "informed_players (write_message p m s) = informed_players s"
  by (simp add: write_message_def update_player_def)

lemma write_message_outbox:
  "outbox (player_heap (write_message p m s) q) =
     (if q = p then outbox (player_heap s p) @ [m] else outbox (player_heap s q))"
  by (simp add: write_message_def update_player_def)

lemma write_message_fields [simp]:
  "searches (write_message p m s) = searches s"
  "search_heap (write_message p m s) = search_heap s"
  "search_count (write_message p m s) = search_count s"
  "tasks (write_message p m s) = tasks s"
  "queues (write_message p m s) = queues s"
  "registered_violations (write_message p m s) = registered_violations s"
  "finished_games (write_message p m s) = finished_games s"
  "matches_metric (write_message p m s) = matches_metric s"
  "logger (write_message p m s) = logger s"
  "is_running (write_message p m s) = is_running s"
  by (simp_all add: write_message_def update_player_def)

lemma write_message_player [simp]:
  "login (player_heap (write_message p m s) q) = login (player_heap s q)"
  "state (player_heap (write_message p m s) q) = state (player_heap s q)"
  "player_id (player_heap (write_message p m s) q) = player_id (player_heap s q)"
  "ratings (player_heap (write_message p m s) q) = ratings (player_heap s q)"
  "faction (player_heap (write_message p m s) q) = faction (player_heap s q)"
  "lobby_connection (player_heap (write_message p m s) q) = lobby_connection (player_heap s q)"
  "game (player_heap (write_message p m s) q) = game (player_heap s q)"
  by (simp_all add: write_message_def update_player_def)

lemma wrp_informed:
  "informed_players (write_rating_progress ext p rt s) = insert p (informed_players s)"
  by (auto simp: write_rating_progress_def Let_def)

lemma wrp_already_informed:
  "p \<in> informed_players s \<Longrightarrow> write_rating_progress ext p rt s = s"
  by (simp add: write_rating_progress_def)

lemma wrp_outbox_other:
  "q \<noteq> p \<Longrightarrow>
     outbox (player_heap (write_rating_progress ext p rt s) q) = outbox (player_heap s q)"
  by (simp add: write_rating_progress_def Let_def write_message_outbox)

lemma wrp_outbox_self:
  "p \<notin> informed_players s \<Longrightarrow>
     outbox (player_heap (write_rating_progress ext p rt s) p) =
       outbox (player_heap s p) @
       (if snd (ratings (player_heap s p) rt) > 490 then [Notice ''info'' welcome_text]
        else if snd (ratings (player_heap s p) rt) > 250 then
          [Notice ''info'' (calibration_text
             (format_0f ext ((500 - snd (ratings (player_heap s p) rt)) / 2.5)))]
        else [])"
  by (simp add: write_rating_progress_def Let_def write_message_outbox)

lemma writes_no_notice_refl: "writes_no_notice s s"
  by (simp add: writes_no_notice_def)

lemma writes_no_notice_trans:
  assumes "writes_no_notice s s1" and "writes_no_notice s1 s2"
  shows "writes_no_notice s s2"
proof -
  have "\<exists>ms. outbox (player_heap s2 p) = outbox (player_heap s p) @ ms
             \<and> filter is_notice ms = []" for p
  proof -
    from assms(1) obtain ms1 where 1: "outbox (player_heap s1 p) = outbox (player_heap s p) @ ms1"
      "filter is_notice ms1 = []" unfolding writes_no_notice_def by blast
    from assms(2) obtain ms2 where 2: "outbox (player_heap s2 p) = outbox (player_heap s1 p) @ ms2"
      "filter is_notice ms2 = []" unfolding writes_no_notice_def by blast
    from 1 2 have "outbox (player_heap s2 p) = outbox (player_heap s p) @ (ms1 @ ms2)
                   \<and> filter is_notice (ms1 @ ms2) = []" by simp
    then show ?thesis by blast
  qed
  with assms show ?thesis by (simp add: writes_no_notice_def)
qed

lemma writes_no_notice_write_message:
  "\<not> is_notice m \<Longrightarrow> writes_no_notice s (write_message p m s)"
  by (simp add: writes_no_notice_def write_message_outbox)

lemma writes_no_notice_update_state:
  "writes_no_notice s (update_player p (\<lambda>pl. pl\<lparr>state := st\<rparr>) s)"
  by (simp add: writes_no_notice_def update_player_def)

lemma writes_no_notice_searches: "writes_no_notice s (s\<lparr>searches := tbl\<rparr>)"
  by (simp add: writes_no_notice_def)

lemma writes_no_notice_search_heap: "writes_no_notice s (s\<lparr>search_heap := sh\<rparr>)"
  by (simp add: writes_no_notice_def)

lemma writes_no_notice_notify_stopped: "writes_no_notice s (notify_stopped qn p s)"
proof -
  have 1: "writes_no_notice s (write_message p (Search_info qn ''stop'') s)"
    by (rule writes_no_notice_write_message) simp
  show ?thesis
    unfolding notify_stopped_def Let_def
    using 1 writes_no_notice_trans[OF 1 writes_no_notice_update_state]
    by simp
qed

lemma writes_no_notice_fold_notify_stopped:
  "writes_no_notice s (fold (notify_stopped qn) ps s)"
proof (induction ps arbitrary: s)
  case Nil
  then show ?case by (simp add: writes_no_notice_refl)
next
  case (Cons p ps)
  from writes_no_notice_trans[OF writes_no_notice_notify_stopped Cons.IH]
  show ?case by simp
qed

lemma writes_no_notice_clear_search:
  "writes_no_notice s (snd (priv_clear_search initiator qn s))"
  by (simp add: priv_clear_search_def writes_no_notice_refl writes_no_notice_searches
      split: option.splits prod.splits sum.splits)

lemma writes_no_notice_cancel_search_one:
  "writes_no_notice s (snd (priv_cancel_search initiator qn s))"
proof (cases "priv_clear_search initiator qn s")
  case (Pair r s1)
  with writes_no_notice_clear_search[of s initiator qn] have 1: "writes_no_notice s s1" by simp
  show ?thesis
  proof (cases r)
    case (Inl e)
    with Pair 1 show ?thesis by (simp add: priv_cancel_search_def)
  next
    case (Inr found)
    show ?thesis
    proof (cases found)
      case None
      with Pair Inr 1 show ?thesis by (simp add: priv_cancel_search_def)
    next
      case (Some sr)
      let ?s2 = "s1\<lparr>search_heap :=
                     (search_heap s1)(sr := (search_heap s1 sr)\<lparr>is_cancelled := True\<rparr>)\<rparr>"
      have "writes_no_notice s
              (fold (notify_stopped qn) (search_players (search_heap ?s2 sr)) ?s2)"
        by (rule writes_no_notice_trans[OF 1
              writes_no_notice_trans[OF writes_no_notice_search_heap
                writes_no_notice_fold_notify_stopped]])
      with Pair Inr Some show ?thesis by (simp add: priv_cancel_search_def Let_def)
    qed
  qed
qed

lemma writes_no_notice_cancel_each:
  "writes_no_notice s (snd (cancel_each initiator qns s))"
proof (induction qns arbitrary: s)
  case Nil
  then show ?case by (simp add: writes_no_notice_refl)
next
  case (Cons qn qns)
  obtain r s1 where c: "priv_cancel_search initiator qn s = (r, s1)"
    by (cases "priv_cancel_search initiator qn s")
  with writes_no_notice_cancel_search_one[of s initiator qn]
  have 1: "writes_no_notice s s1" by simp
  show ?case
  proof (cases r)
    case (Inl e)
    with c 1 show ?thesis by simp
  next
    case (Inr u)
    with c writes_no_notice_trans[OF 1 Cons.IH[of s1]] show ?thesis by simp
  qed
qed

lemma writes_no_notice_cancel_search:
  "writes_no_notice s (snd (cancel_search initiator qn_opt s))"
  by (simp add: cancel_search_def writes_no_notice_cancel_each)

lemma on_connection_lost_effect:
  "\<exists>s1. writes_no_notice s s1
      \<and> (\<forall>p. outbox (player_heap (snd (on_connection_lost c s)) p) = outbox (player_heap s1 p))
      \<and> (\<forall>p. c \<noteq> Some p \<longrightarrow>
              (p \<in> informed_players (snd (on_connection_lost c s))) = (p \<in> informed_players s1))
      \<and> (\<forall>p. c = Some p \<and> fst (on_connection_lost c s) = Inr ()
              \<longrightarrow> p \<notin> informed_players (snd (on_connection_lost c s)))"
proof (cases c)
  case None
  then show ?thesis
    by (intro exI[of _ s]) (simp add: on_connection_lost_def writes_no_notice_refl)
next
  case (Some q)
  obtain r s1 where c: "cancel_search q None s = (r, s1)" by (cases "cancel_search q None s")
  with writes_no_notice_cancel_search[of s q None] have 1: "writes_no_notice s s1" by simp
  show ?thesis
    using 1 Some c
    by (intro exI[of _ s1]) (cases r; auto simp: on_connection_lost_def)
qed

lemma run_event_not_own_loss:
  assumes "e \<noteq> Connection_lost (Some p)"
  shows "\<exists>ms. outbox (player_heap (run_event ext e s) p) = outbox (player_heap s p) @ ms
           \<and> (if p \<in> informed_players s
              then filter is_notice ms = [] \<and> p \<in> informed_players (run_event ext e s)
              else filter is_notice ms = []
                   \<or> (length (filter is_notice ms) = 1
                      \<and> p \<in> informed_players (run_event ext e s)))"
proof (cases e)
  case (Write_rating_progress q rt)
  show ?thesis
  proof (cases "q = p")
    case True
    show ?thesis
    proof (cases "p \<in> informed_players s")
      case True
      with \<open>q = p\<close> Write_rating_progress show ?thesis by (simp add: wrp_already_informed)
    next
      case False
      with \<open>q = p\<close> Write_rating_progress show ?thesis
        by (simp add: wrp_outbox_self wrp_informed)
    qed
  next
    case False
    with Write_rating_progress show ?thesis by (simp add: wrp_outbox_other wrp_informed)
  qed
next
  case (Set_rating q rt m d)
  then show ?thesis by (cases "p = q") (simp_all add: update_player_def)
next
  case (Connection_lost c)
  with assms have ne: "c \<noteq> Some p" by simp
  from on_connection_lost_effect[of s c] obtain s1 where s1: "writes_no_notice s s1"
    "outbox (player_heap (snd (on_connection_lost c s)) p) = outbox (player_heap s1 p)"
    "(p \<in> informed_players (snd (on_connection_lost c s))) = (p \<in> informed_players s1)"
    using ne by blast
  from s1(1) obtain ms where ms: "outbox (player_heap s1 p) = outbox (player_heap s p) @ ms"
    "filter is_notice ms = []" and inf: "informed_players s1 = informed_players s"
    unfolding writes_no_notice_def by blast
  show ?thesis using Connection_lost s1(2,3) ms inf by simp
qed

lemma run_events_informed_silent:
  "Connection_lost (Some p) \<notin> set es \<Longrightarrow> p \<in> informed_players s
   \<Longrightarrow> p \<in> informed_players (run_events ext es s)
       \<and> (\<exists>ms. outbox (player_heap (run_events ext es s) p) = outbox (player_heap s p) @ ms
               \<and> filter is_notice ms = [])"
proof (induction es arbitrary: s)
  case Nil
  then show ?case by simp
next
  case (Cons e es)
  from Cons.prems have ne: "e \<noteq> Connection_lost (Some p)"
    and rest: "Connection_lost (Some p) \<notin> set es" by auto
  let ?s1 = "run_event ext e s"
  from run_event_not_own_loss[OF ne, of ext s] Cons.prems(2)
  obtain ms1 where 1: "outbox (player_heap ?s1 p) = outbox (player_heap s p) @ ms1"
    "filter is_notice ms1 = []" "p \<in> informed_players ?s1" by auto
  from Cons.IH[OF rest 1(3)] obtain ms2 where 2: "p \<in> informed_players (run_events ext es ?s1)"
    "outbox (player_heap (run_events ext es ?s1) p) = outbox (player_heap ?s1 p) @ ms2"
    "filter is_notice ms2 = []" by blast
  have "outbox (player_heap (run_events ext (e # es) s) p) = outbox (player_heap s p) @ (ms1 @ ms2)
        \<and> filter is_notice (ms1 @ ms2) = []"
    using 1 2 by simp
  with 2(1) show ?case by (metis run_events.simps(2))
qed

lemma run_events_at_most_one:
  "Connection_lost (Some p) \<notin> set es \<Longrightarrow>
     \<exists>ms. outbox (player_heap (run_events ext es s) p) = outbox (player_heap s p) @ ms
        \<and> length (filter is_notice ms) \<le> (if p \<in> informed_players s then 0 else 1)"
proof (induction es arbitrary: s)
  case Nil
  then show ?case by simp
next
  case (Cons e es)
  from Cons.prems have ne: "e \<noteq> Connection_lost (Some p)"
    and rest: "Connection_lost (Some p) \<notin> set es" by auto
  let ?s1 = "run_event ext e s"
  from run_event_not_own_loss[OF ne, of ext s]
  obtain ms1 where 1: "outbox (player_heap ?s1 p) = outbox (player_heap s p) @ ms1"
    and c1: "if p \<in> informed_players s
              then filter is_notice ms1 = [] \<and> p \<in> informed_players ?s1
              else filter is_notice ms1 = []
                   \<or> (length (filter is_notice ms1) = 1 \<and> p \<in> informed_players ?s1)"
    by blast
  from Cons.IH[OF rest, of ?s1] obtain ms2 where
    2: "outbox (player_heap (run_events ext es ?s1) p) = outbox (player_heap ?s1 p) @ ms2"
    and c2: "length (filter is_notice ms2) \<le> (if p \<in> informed_players ?s1 then 0 else 1)"
    by blast
  have ob: "outbox (player_heap (run_events ext (e # es) s) p)
              = outbox (player_heap s p) @ (ms1 @ ms2)"
    using 1 2 by simp
  have "length (filter is_notice (ms1 @ ms2)) \<le> (if p \<in> informed_players s then 0 else 1)"
    using c1 c2 by (auto split: if_splits)
  with ob show ?case by blast
qed

section \<open>Rating-progress notices\<close>

text \<open>
  C10: when \<^verbatim>\<open>write_rating_progress\<close> is called for a player who is not yet marked
  informed and whose deviation is at most 250, nothing is written to the player and the
  player is marked informed all the same.  Over every later sequence of rating changes,
  \<^verbatim>\<open>write_rating_progress\<close> calls and lost connections other than the player's own
  (returning or raising), the player stays marked and is written no notice, whatever
  deviation those calls observe; a lost connection of the player that returns removes the
  mark.
\<close>

theorem low_deviation_marks_informed_without_notice:
  assumes "p \<notin> informed_players s"
    and "snd (ratings (player_heap s p) rt) \<le> 250"
    and "Connection_lost (Some p) \<notin> set es"
  shows "outbox (player_heap (write_rating_progress ext p rt s) p) = outbox (player_heap s p)
       \<and> p \<in> informed_players (write_rating_progress ext p rt s)
       \<and> (let s' = run_events ext es (write_rating_progress ext p rt s)
          in p \<in> informed_players s'
           \<and> notices p s' = notices p s
           \<and> (\<exists>ms. outbox (player_heap s' p) = outbox (player_heap s p) @ ms
                    \<and> filter is_notice ms = [])
           \<and> (fst (on_connection_lost (Some p) s') = Inr ()
                \<longrightarrow> p \<notin> informed_players (snd (on_connection_lost (Some p) s'))))"
proof -
  let ?s1 = "write_rating_progress ext p rt s"
  let ?s' = "run_events ext es ?s1"
  have ob: "outbox (player_heap ?s1 p) = outbox (player_heap s p)"
    using assms(1,2) by (simp add: wrp_outbox_self)
  have inf: "p \<in> informed_players ?s1" by (simp add: wrp_informed)
  from run_events_informed_silent[OF assms(3) inf, of ext]
  obtain ms where s': "p \<in> informed_players ?s'"
    "outbox (player_heap ?s' p) = outbox (player_heap ?s1 p) @ ms" "filter is_notice ms = []"
    by blast
  have nt: "notices p ?s' = notices p s" using s'(2,3) ob by (simp add: notices_def)
  have ex: "\<exists>ms. outbox (player_heap ?s' p) = outbox (player_heap s p) @ ms
                 \<and> filter is_notice ms = []"
    using s'(2,3) ob by simp
  have lost: "fst (on_connection_lost (Some p) ?s') = Inr ()
                \<longrightarrow> p \<notin> informed_players (snd (on_connection_lost (Some p) ?s'))"
    using on_connection_lost_effect[of ?s' "Some p"] by blast
  show ?thesis unfolding Let_def using ob inf s'(1) nt ex lost by blast
qed

theorem low_deviation_marks_informed_without_notice_witness:
  "(let s = init_service (\<lambda>i. mk_player i ''p'' 1500 100) (\<lambda>r. mk_search [1, 2] ''q'')
              \<lparr>searches := (\<lambda>p. if p = 1 \<or> p = 2 then [(''q'', 0)] else [])\<rparr>;
        s' = run_events ext0 [Set_rating 1 ''global'' 1500 500, Connection_lost (Some 2),
                              Write_rating_progress 1 ''global'']
               (write_rating_progress ext0 1 ''global'' s)
    in 1 \<notin> informed_players s
     \<and> snd (ratings (player_heap s 1) ''global'') \<le> 250
     \<and> outbox (player_heap (write_rating_progress ext0 1 ''global'' s) 1) = []
     \<and> outbox (player_heap s' 1) = [Search_info ''q'' ''stop'']
     \<and> notices 1 s' = []
     \<and> 1 \<in> informed_players s')"
proof -
  let ?s = "init_service (\<lambda>i. mk_player i ''p'' 1500 100) (\<lambda>r. mk_search [1, 2] ''q'')
              \<lparr>searches := (\<lambda>p. if p = 1 \<or> p = 2 then [(''q'', 0)] else [])\<rparr>"
  let ?es = "[Set_rating 1 ''global'' 1500 500, Connection_lost (Some 2),
              Write_rating_progress 1 ''global'']"
  let ?s' = "run_events ext0 ?es (write_rating_progress ext0 1 ''global'' ?s)"
  have h1: "1 \<notin> informed_players ?s" by (simp add: init_service_def)
  have h2: "snd (ratings (player_heap ?s 1) ''global'') \<le> 250"
    by (simp add: init_service_def mk_player_def)
  have h3: "Connection_lost (Some 1) \<notin> set ?es" by simp
  have n0: "notices 1 ?s = []" by (simp add: notices_def init_service_def mk_player_def)
  have o0: "outbox (player_heap ?s 1) = []" by (simp add: init_service_def mk_player_def)
  have ob: "outbox (player_heap ?s' 1) = [Search_info ''q'' ''stop'']"
    by (simp add: init_service_def mk_player_def mk_search_def write_rating_progress_def
        update_player_def write_message_def on_connection_lost_def cancel_search_def
        priv_cancel_search_def priv_clear_search_def notify_stopped_def Let_def)
  from low_deviation_marks_informed_without_notice[OF h1 h2 h3, of ext0]
  have t: "outbox (player_heap (write_rating_progress ext0 1 ''global'' ?s) 1)
             = outbox (player_heap ?s 1)"
    "1 \<in> informed_players ?s'" "notices 1 ?s' = notices 1 ?s"
    unfolding Let_def by blast+
  show ?thesis unfolding Let_def using h1 h2 ob t(2) t(1)[unfolded o0] t(3)[unfolded n0]
    by blast
qed

text \<open>
  C7, as stated, fails: \<^verbatim>\<open>on_connection_lost\<close> forgets the player's mark, so within one
  process lifetime a player of deviation 500 is sent the welcome notice twice by the calls
  before and after a lost connection.
\<close>

theorem rating_notice_repeats_after_connection_loss:
  "notices 1 (run_events ext0 [Write_rating_progress 1 ''global'', Connection_lost (Some 1),
                               Write_rating_progress 1 ''global'']
               (init_service (\<lambda>i. mk_player i ''p'' 1500 500) (\<lambda>r. mk_search [] ''q'')))
   = [Notice ''info'' welcome_text, Notice ''info'' welcome_text]"
  by (simp add: init_service_def mk_player_def write_rating_progress_def Let_def write_message_def
      update_player_def on_connection_lost_def cancel_search_def notices_def)

text \<open>
  C7, amended: a player who is not yet marked informed receives the welcome notice when the
  deviation is above 490, the calibration notice reporting (500 - deviation) / 2.5 percent
  when it is above 250 and at most 490, and nothing otherwise; and over any sequence of
  rating changes, \<^verbatim>\<open>write_rating_progress\<close> calls and lost connections (returning or
  raising) in which the player's own connection is not lost, the player is sent at most one
  more notice, and none when already marked informed.
\<close>

theorem rating_progress_once_between_connection_losses:
  assumes "Connection_lost (Some p) \<notin> set es"
  shows "(p \<notin> informed_players s \<longrightarrow>
            outbox (player_heap (write_rating_progress ext p rt s) p) =
              outbox (player_heap s p) @
              (if snd (ratings (player_heap s p) rt) > 490 then [Notice ''info'' welcome_text]
               else if snd (ratings (player_heap s p) rt) > 250 then
                 [Notice ''info'' (calibration_text
                    (format_0f ext ((500 - snd (ratings (player_heap s p) rt)) / 2.5)))]
               else []))
       \<and> length (notices p (run_events ext es s))
           \<le> length (notices p s) + (if p \<in> informed_players s then 0 else 1)"
proof -
  from run_events_at_most_one[OF assms, of ext s]
  obtain ms where s': "outbox (player_heap (run_events ext es s) p) = outbox (player_heap s p) @ ms"
    "length (filter is_notice ms) \<le> (if p \<in> informed_players s then 0 else 1)"
    by blast
  have "length (notices p (run_events ext es s))
          = length (notices p s) + length (filter is_notice ms)"
    by (simp add: notices_def s'(1))
  with s'(2) show ?thesis by (simp add: wrp_outbox_self)
qed

theorem rating_progress_once_between_connection_losses_witness:
  "(let s = init_service (\<lambda>i. mk_player i ''p'' 1500 300) (\<lambda>r. mk_search [1, 2] ''q'')
              \<lparr>searches := (\<lambda>p. if p = 1 \<or> p = 2 then [(''q'', 0)] else [])\<rparr>;
        s' = run_events ext0 [Write_rating_progress 1 ''global'', Connection_lost (Some 2),
                              Set_rating 1 ''global'' 1500 500, Write_rating_progress 1 ''global'']
               s
    in outbox (player_heap (write_rating_progress ext0 1 ''global'' s) 1)
         = [Notice ''info'' (calibration_text (format_0f ext0 80))]
     \<and> outbox (player_heap s' 1)
         = [Notice ''info'' (calibration_text (format_0f ext0 80)), Search_info ''q'' ''stop'']
     \<and> length (notices 1 s') = 1)"
proof -
  let ?s = "init_service (\<lambda>i. mk_player i ''p'' 1500 300) (\<lambda>r. mk_search [1, 2] ''q'')
              \<lparr>searches := (\<lambda>p. if p = 1 \<or> p = 2 then [(''q'', 0)] else [])\<rparr>"
  let ?es = "[Write_rating_progress 1 ''global'', Connection_lost (Some 2),
              Set_rating 1 ''global'' 1500 500, Write_rating_progress 1 ''global'']"
  have h: "Connection_lost (Some 1) \<notin> set ?es" by simp
  have ob: "outbox (player_heap (run_events ext0 ?es ?s) 1)
         = [Notice ''info'' (calibration_text (format_0f ext0 80)), Search_info ''q'' ''stop'']"
    by (simp add: init_service_def mk_player_def mk_search_def write_rating_progress_def
        update_player_def write_message_def on_connection_lost_def cancel_search_def
        priv_cancel_search_def priv_clear_search_def notify_stopped_def Let_def)
  from rating_progress_once_between_connection_losses[OF h, of ?s ext0 "''global''"]
  show ?thesis unfolding Let_def using ob
    by (simp add: init_service_def mk_player_def write_rating_progress_def update_player_def
        write_message_def notices_def Let_def)
qed

section \<open>Timed-out parties\<close>

lemma timeout_notice_cong:
  "(\<And>q. login (player_heap s' q) = login (player_heap s q)) \<Longrightarrow>
     timeout_notice ext s' tms t ts = timeout_notice ext s tms t ts"
  by (simp add: timeout_notice_def case_prod_unfold)

lemma notify_timed_out_same: "same_but_outbox s (notify_timed_out ext qn tms t ts p s)"
  by (simp add: same_but_outbox_def notify_timed_out_def Let_def)

lemma same_but_outbox_trans:
  "same_but_outbox s s1 \<Longrightarrow> same_but_outbox s1 s2 \<Longrightarrow> same_but_outbox s s2"
  by (simp add: same_but_outbox_def)

lemma notify_timed_out_outbox:
  "outbox (player_heap (notify_timed_out ext qn tms t ts p s) q) =
     outbox (player_heap s q) @
       (if q = p then [Search_timeout tms, Search_info qn ''stop'', timeout_notice ext s tms t ts]
        else [])"
proof -
  let ?s2 = "write_message p (Search_info qn ''stop'') (write_message p (Search_timeout tms) s)"
  have "timeout_notice ext ?s2 tms t ts = timeout_notice ext s tms t ts"
    by (rule timeout_notice_cong) simp
  then show ?thesis
    by (simp add: notify_timed_out_def Let_def write_message_outbox)
qed

lemma fold_notify_timed_out_same:
  "same_but_outbox s (fold (notify_timed_out ext qn tms t ts) ps s)"
proof (induction ps arbitrary: s)
  case Nil
  then show ?case by (simp add: same_but_outbox_def)
next
  case (Cons p ps)
  show ?case
    using same_but_outbox_trans[OF notify_timed_out_same Cons.IH] by simp
qed

lemma fold_notify_timed_out_outbox:
  "outbox (player_heap (fold (notify_timed_out ext qn tms t ts) ps s) q) =
      outbox (player_heap s q) @
        concat (replicate (count_list ps q)
          [Search_timeout tms, Search_info qn ''stop'', timeout_notice ext s tms t ts])"
proof (induction ps arbitrary: s)
  case Nil
  then show ?case by simp
next
  case (Cons p ps)
  let ?s1 = "notify_timed_out ext qn tms t ts p s"
  have "same_but_outbox s ?s1" by (rule notify_timed_out_same)
  then have tn: "timeout_notice ext ?s1 tms t ts = timeout_notice ext s tms t ts"
    by (intro timeout_notice_cong) (simp add: same_but_outbox_def)
  show ?case
    by (simp add: Cons.IH[of ?s1] tn notify_timed_out_outbox)
qed

lemma max_by_key_mono: "key v \<le> key (max_by_key key v vs)"
proof (induction vs arbitrary: v)
  case Nil
  then show ?case by simp
next
  case (Cons x xs)
  show ?case
  proof (cases "key x > key v")
    case True
    then show ?thesis using Cons.IH[of x] by simp
  next
    case False
    then show ?thesis using Cons.IH[of v] by simp
  qed
qed

lemma max_by_key_in: "max_by_key key v vs \<in> set (v # vs)"
proof (induction vs arbitrary: v)
  case Nil
  then show ?case by simp
next
  case (Cons x xs)
  show ?case
    using Cons.IH[of x] Cons.IH[of v] by (auto split: if_splits)
qed

lemma max_by_key_ge: "x \<in> set (v # vs) \<Longrightarrow> key x \<le> key (max_by_key key v vs)"
proof (induction vs arbitrary: v)
  case Nil
  then show ?case by simp
next
  case (Cons y ys)
  let ?b = "if key y > key v then y else v"
  have b: "key v \<le> key ?b" "key y \<le> key ?b" by auto
  have m: "key ?b \<le> key (max_by_key key ?b ys)" by (rule max_by_key_mono)
  from Cons.prems consider "x = v" | "x = y" | "x \<in> set ys" by auto
  then show ?case
  proof cases
    case 1
    then show ?thesis using b(1) m by (simp del: if_split)
  next
    case 2
    then show ?thesis using b(2) m by (simp del: if_split)
  next
    case 3
    then have "x \<in> set (?b # ys)" by simp
    from Cons.IH[OF this] show ?thesis by simp
  qed
qed

lemma max_by_key_remaining:
  "get_remaining ext (max_by_key get_ban_expiration v vs) = Max (get_remaining ext ` set (v # vs))"
proof (rule sym, rule Max_eqI)
  show "finite (get_remaining ext ` set (v # vs))" by simp
next
  fix y assume "y \<in> get_remaining ext ` set (v # vs)"
  then obtain x where x: "x \<in> set (v # vs)" "y = get_remaining ext x" by auto
  from max_by_key_ge[OF x(1), of get_ban_expiration]
  show "y \<le> get_remaining ext (max_by_key get_ban_expiration v vs)"
    by (simp add: x(2) get_remaining_def get_ban_expiration_def)
next
  show "get_remaining ext (max_by_key get_ban_expiration v vs) \<in> get_remaining ext ` set (v # vs)"
    using max_by_key_in[of get_ban_expiration v vs] by blast
qed

lemma timeout_notice_text:
  "timeout_notice ext s (timeout_times ext s (t # ts)) t ts =
     Notice ''info''
       (''Player'' @ (if ts = [] then [] else ''s'') @ '' '' @
        join '', '' (map (\<lambda>(q, v). login (player_heap s q)) (t # ts)) @ '' '' @
        (if ts = [] then ''is'' else ''are'') @ '' timed out for '' @
        naturaldelta ext (Max ((\<lambda>(q, v). ban_expires_at v - now ext) ` set (t # ts))))"
proof -
  have "get_remaining ext ` set (snd t # map snd ts) =
        (\<lambda>(q, v). ban_expires_at v - now ext) ` set (t # ts)"
    by (auto simp: get_remaining_def case_prod_unfold image_iff)
  then have "get_remaining ext (max_by_key get_ban_expiration (snd t) (map snd ts)) =
        Max ((\<lambda>(q, v). ban_expires_at v - now ext) ` set (t # ts))"
    using max_by_key_remaining[of ext "snd t" "map snd ts"] by simp
  then show ?thesis
    by (simp add: timeout_notice_def timeout_times_def Let_def del: set_simps list.map)
qed

text \<open>
  C5: when the violation service reports at least one timeout for the party,
  \<^verbatim>\<open>start_search\<close> returns after writing to each player of the party, once per
  occurrence in the party, a \<^verbatim>\<open>search_timeout\<close> message that lists every reported
  timeout, a \<^verbatim>\<open>search_info\<close> with state stop for the queue, and a notice that names
  the timed-out players and the longest remaining ban; nobody else is written to, no
  search is created or handed to a queue, and the per-player search maps are unchanged.
\<close>

theorem start_search_timed_out_party_notified:
  assumes "get_violations ext players = t # ts"
  shows "\<exists>s'. start_search ext players qn s = Inr s'
    \<and> (\<forall>p. outbox (player_heap s' p) =
          outbox (player_heap s p) @
          concat (replicate (count_list players p)
            [Search_timeout
               (map (\<lambda>(q, v). (player_id (player_heap s q), isoformat ext (ban_expires_at v)))
                    (t # ts)),
             Search_info qn ''stop'',
             Notice ''info''
               (''Player'' @ (if ts = [] then [] else ''s'') @ '' '' @
                join '', '' (map (\<lambda>(q, v). login (player_heap s q)) (t # ts)) @ '' '' @
                (if ts = [] then ''is'' else ''are'') @ '' timed out for '' @
                naturaldelta ext (Max ((\<lambda>(q, v). ban_expires_at v - now ext) ` set (t # ts))))]))
    \<and> searches s' = searches s \<and> search_heap s' = search_heap s
    \<and> search_count s' = search_count s \<and> tasks s' = tasks s"
proof -
  let ?tms = "timeout_times ext s (t # ts)"
  let ?s' = "fold (notify_timed_out ext qn ?tms t ts) players s"
  have run: "start_search ext players qn s = Inr ?s'"
    using assms by (simp add: start_search_def Let_def)
  have tms: "?tms = map (\<lambda>(q, v). (player_id (player_heap s q), isoformat ext (ban_expires_at v)))
                    (t # ts)"
    by (simp add: timeout_times_def get_ban_expiration_def del: list.map)
  have same: "same_but_outbox s ?s'" by (rule fold_notify_timed_out_same)
  have ob: "\<forall>p. outbox (player_heap ?s' p) = outbox (player_heap s p) @
          concat (replicate (count_list players p)
            [Search_timeout ?tms, Search_info qn ''stop'', timeout_notice ext s ?tms t ts])"
    by (simp add: fold_notify_timed_out_outbox)
  show ?thesis
    apply (rule exI[of _ ?s'])
    using run same ob unfolding timeout_notice_text tms[symmetric]
    by (simp add: same_but_outbox_def)
qed

theorem start_search_timed_out_party_notified_witness:
  "get_violations
      (ext0\<lparr>get_violations := (\<lambda>ps. [(1, \<lparr>time_offended = 0, ban_expires_at = 240\<rparr>)]),
            naturaldelta := (\<lambda>d. if d = 240 then ''4 minutes'' else ''?'')\<rparr>) [1]
     = [(1, \<lparr>time_offended = 0, ban_expires_at = 240\<rparr>)]
   \<and> (case start_search
            (ext0\<lparr>get_violations := (\<lambda>ps. [(1, \<lparr>time_offended = 0, ban_expires_at = 240\<rparr>)]),
                  naturaldelta := (\<lambda>d. if d = 240 then ''4 minutes'' else ''?'')\<rparr>)
            [1] ''ladder1v1''
            (init_service (\<lambda>i. mk_player i ''C'' 1500 100) (\<lambda>r. mk_search [] ''q'')) of
        Inl e \<Rightarrow> ([], [(''x'', 0)])
      | Inr s' \<Rightarrow> (outbox (player_heap s' 1), tasks s'))
     = ([Search_timeout [(1, ''T'')], Search_info ''ladder1v1'' ''stop'',
         Notice ''info'' ''Player C is timed out for 4 minutes''], [])"
  using start_search_timed_out_party_notified
    [of "ext0\<lparr>get_violations := (\<lambda>ps. [(1, \<lparr>time_offended = 0, ban_expires_at = 240\<rparr>)]),
              naturaldelta := (\<lambda>d. if d = 240 then ''4 minutes'' else ''?'')\<rparr>"
        "[1]" "(1, \<lparr>time_offended = 0, ban_expires_at = 240\<rparr>)" "[]" "''ladder1v1''"
        "init_service (\<lambda>i. mk_player i ''C'' 1500 100) (\<lambda>r. mk_search [] ''q'')"]
  by (auto simp: ext0_def init_service_def mk_player_def)

section \<open>Properties of the refresh\<close>

lemma fetch_rating_peak_value: "fst (fetch_rating_peak ext rt s) = journal_peak ext rt"
  by (simp add: fetch_rating_peak_def journal_peak_def Let_def mean_def)

lemma fetch_rating_peak_state:
  "snd (fetch_rating_peak ext rt s) =
     s\<lparr>rating_peak_gauge := rating_peak_gauge s @ [(rt, journal_peak ext rt)],
       logger := logger s @ rating_peak_log ext rt\<rparr>"
  by (simp add: fetch_rating_peak_def journal_peak_def Let_def mean_def rating_peak_log_def)

lemma add_map_pools_ok:
  "list_all (\<lambda>pool. mpm (fst pool) \<noteq> None) pools \<Longrightarrow>
     \<exists>q' logs'. add_map_pools mpm name pools (q, logs) = Inr (q', logs')
        \<and> rating_peak q' = rating_peak q \<and> rating_type q' = rating_type q
        \<and> (\<exists>l. logs' = logs @ l)"
proof (induction pools arbitrary: q logs)
  case Nil
  then show ?case by simp
next
  case (Cons pool pools)
  obtain pid mn mx where pool: "pool = (pid, mn, mx)" by (cases pool)
  from Cons.prems pool obtain pname ml where k: "mpm pid = Some (pname, ml)" by auto
  from Cons.prems have rest: "list_all (\<lambda>pool. mpm (fst pool) \<noteq> None) pools" by simp
  let ?q1 = "q\<lparr>map_pools := map_pools q @
                [(\<lparr>pool_id = pid, pool_name = pname, pool_maps = ml\<rparr>, mn, mx)]\<rparr>"
  let ?l1 = "if ml = [] then logs @ [Warn_empty_map_pool pname name] else logs"
  from Cons.IH[OF rest, of ?q1 ?l1]
  obtain q' logs' l where r: "add_map_pools mpm name pools (?q1, ?l1) = Inr (q', logs')"
    "rating_peak q' = rating_peak ?q1" "rating_type q' = rating_type ?q1" "logs' = ?l1 @ l"
    by blast
  have "add_map_pools mpm name (pool # pools) (q, logs) = Inr (q', logs')"
    using pool k r(1) by simp
  moreover have "\<exists>l. logs' = logs @ l" using r(4) by (cases "ml = []") auto
  ultimately show ?case using r(2,3) by auto
qed

lemma same_but_queues_refl: "same_but_queues s s"
  by (simp add: same_but_queues_def)

lemma same_but_queues_trans:
  "same_but_queues s s1 \<Longrightarrow> same_but_queues s1 s2 \<Longrightarrow> same_but_queues s s2"
  by (auto simp: same_but_queues_def)

lemma refresh_queue_ok:
  assumes "list_all (\<lambda>pool. mpm (fst pool) \<noteq> None) (info_map_pools info)"
  shows "\<exists>s1 q'. refresh_queue ext mpm (name, info) s = Inr s1
     \<and> map_of (queues s1) = (map_of (queues s))(name \<mapsto> q')
     \<and> rating_peak q' = (if map_of (queues s) name = None then new_queue_rating_peak ext
                          else journal_peak ext (info_rating_type info))
     \<and> (map_of (queues s) name \<noteq> None \<longrightarrow>
           (\<exists>l. logger s1 = logger s @ rating_peak_log ext (info_rating_type info) @ l)
         \<and> (\<exists>g. rating_peak_gauge s1 = rating_peak_gauge s @
                 [(info_rating_type info, journal_peak ext (info_rating_type info))] @ g))
     \<and> (map_of (queues s) name = None \<longrightarrow> rating_peak_gauge s1 = rating_peak_gauge s)
     \<and> same_but_queues s s1"
proof (cases "map_of (queues s) name")
  case None
  let ?q = "\<lparr>queue_name = name, queue_id = info_id info, featured_mod = info_mod info,
             rating_type = info_rating_type info, team_size = info_team_size info,
             params = info_params info, rating_peak = new_queue_rating_peak ext,
             map_pools = []\<rparr>"
  from add_map_pools_ok[OF assms, of name "?q\<lparr>map_pools := []\<rparr>" "logger s"]
  obtain q' logs' l where r: "add_map_pools mpm name (info_map_pools info)
        (?q\<lparr>map_pools := []\<rparr>, logger s) = Inr (q', logs')"
    "rating_peak q' = new_queue_rating_peak ext" "logs' = logger s @ l" by auto
  have "refresh_queue ext mpm (name, info) s =
          Inr (s\<lparr>queues := AList.update name q' (queues s), logger := logs'\<rparr>)"
    using None r(1) by (simp add: refresh_queue_def)
  then show ?thesis using None r(2,3)
    by (auto simp: update_conv' same_but_queues_def)
next
  case (Some q)
  let ?rt = "info_rating_type info"
  obtain pk s' where fp: "fetch_rating_peak ext ?rt s = (pk, s')"
    by (cases "fetch_rating_peak ext ?rt s")
  have pk: "pk = journal_peak ext ?rt"
    using fetch_rating_peak_value[of ext ?rt s] fp by simp
  have s': "s' = s\<lparr>rating_peak_gauge := rating_peak_gauge s @ [(?rt, journal_peak ext ?rt)],
                   logger := logger s @ rating_peak_log ext ?rt\<rparr>"
    using fetch_rating_peak_state[of ext ?rt s] fp by simp
  let ?q = "q\<lparr>featured_mod := info_mod info, rating_type := ?rt,
               team_size := info_team_size info, rating_peak := pk\<rparr>"
  from add_map_pools_ok[OF assms, of name "?q\<lparr>map_pools := []\<rparr>" "logger s'"]
  obtain q' logs' l where r: "add_map_pools mpm name (info_map_pools info)
        (?q\<lparr>map_pools := []\<rparr>, logger s') = Inr (q', logs')"
    "rating_peak q' = pk" "logs' = logger s' @ l" by auto
  have "refresh_queue ext mpm (name, info) s =
          Inr (s'\<lparr>queues := AList.update name q' (queues s'), logger := logs'\<rparr>)"
    using Some r(1) fp by (simp add: refresh_queue_def)
  then show ?thesis using Some r(2,3) pk
    by (auto simp: update_conv' same_but_queues_def s')
qed

lemma pools_known_Cons:
  "pools_known mpm ((name, info) # rest) \<longleftrightarrow>
     list_all (\<lambda>pool. mpm (fst pool) \<noteq> None) (info_map_pools info) \<and> pools_known mpm rest"
  by (simp add: pools_known_def)

lemma refresh_queues_ok:
  "pools_known mpm db \<Longrightarrow>
     \<exists>s1. refresh_queues ext mpm db s = Inr s1 \<and> same_but_queues s s1
        \<and> (\<forall>n. n \<notin> fst ` set db \<longrightarrow> map_of (queues s1) n = map_of (queues s) n)
        \<and> (\<forall>n. n \<in> fst ` set db \<longrightarrow> map_of (queues s1) n \<noteq> None)"
proof (induction db arbitrary: s)
  case Nil
  then show ?case by (simp add: same_but_queues_refl)
next
  case (Cons entry rest)
  obtain name info where entry: "entry = (name, info)" by (cases entry)
  from Cons.prems entry have pk: "list_all (\<lambda>pool. mpm (fst pool) \<noteq> None) (info_map_pools info)"
    and rest: "pools_known mpm rest" by (simp_all add: pools_known_Cons)
  from refresh_queue_ok[OF pk, of ext name s]
  obtain s1 q' where s1: "refresh_queue ext mpm (name, info) s = Inr s1"
    "map_of (queues s1) = (map_of (queues s))(name \<mapsto> q')" "same_but_queues s s1" by blast
  from Cons.IH[OF rest, of s1]
  obtain s2 where s2: "refresh_queues ext mpm rest s1 = Inr s2" "same_but_queues s1 s2"
    "\<forall>n. n \<notin> fst ` set rest \<longrightarrow> map_of (queues s2) n = map_of (queues s1) n"
    "\<forall>n. n \<in> fst ` set rest \<longrightarrow> map_of (queues s2) n \<noteq> None" by blast
  have run: "refresh_queues ext mpm (entry # rest) s = Inr s2"
    using entry s1(1) s2(1) by simp
  have same: "same_but_queues s s2" using same_but_queues_trans[OF s1(3) s2(2)] .
  have out: "\<forall>n. n \<notin> fst ` set (entry # rest) \<longrightarrow> map_of (queues s2) n = map_of (queues s) n"
    using s2(3) s1(2) entry by auto
  have inn: "\<forall>n. n \<in> fst ` set (entry # rest) \<longrightarrow> map_of (queues s2) n \<noteq> None"
  proof (intro allI impI)
    fix n assume n: "n \<in> fst ` set (entry # rest)"
    show "map_of (queues s2) n \<noteq> None"
    proof (cases "n \<in> fst ` set rest")
      case True
      then show ?thesis using s2(4) by blast
    next
      case False
      with n entry have "n = name" by auto
      then show ?thesis using s2(3) False s1(2) by simp
    qed
  qed
  from run same out inn show ?case by blast
qed

lemma refresh_queues_entry:
  assumes "pools_known mpm db" "distinct (map fst db)" "(name, info) \<in> set db"
    "refresh_queues ext mpm db s = Inr s2"
  shows "\<exists>q. map_of (queues s2) name = Some q
     \<and> rating_peak q = (if map_of (queues s) name = None then new_queue_rating_peak ext
                         else journal_peak ext (info_rating_type info))
     \<and> (map_of (queues s) name \<noteq> None \<longrightarrow>
           set (rating_peak_log ext (info_rating_type info)) \<subseteq> set (logger s2)
         \<and> (info_rating_type info, journal_peak ext (info_rating_type info))
               \<in> set (rating_peak_gauge s2))"
  using assms
proof (induction db arbitrary: s)
  case Nil
  then show ?case by simp
next
  case (Cons entry rest)
  obtain name1 info1 where entry: "entry = (name1, info1)" by (cases entry)
  from Cons.prems(1) entry
  have pk: "list_all (\<lambda>pool. mpm (fst pool) \<noteq> None) (info_map_pools info1)"
    and rest: "pools_known mpm rest" by (simp_all add: pools_known_Cons)
  from Cons.prems(2) entry have d: "name1 \<notin> fst ` set rest" "distinct (map fst rest)" by auto
  from refresh_queue_ok[OF pk, of ext name1 s]
  obtain s1 q' where s1: "refresh_queue ext mpm (name1, info1) s = Inr s1"
    "map_of (queues s1) = (map_of (queues s))(name1 \<mapsto> q')"
    "rating_peak q' = (if map_of (queues s) name1 = None then new_queue_rating_peak ext
                          else journal_peak ext (info_rating_type info1))"
    "map_of (queues s) name1 \<noteq> None \<longrightarrow>
           (\<exists>l. logger s1 = logger s @ rating_peak_log ext (info_rating_type info1) @ l)
         \<and> (\<exists>g. rating_peak_gauge s1 = rating_peak_gauge s @
                 [(info_rating_type info1, journal_peak ext (info_rating_type info1))] @ g)"
    by blast
  from Cons.prems(4) entry s1(1) have run2: "refresh_queues ext mpm rest s1 = Inr s2" by simp
  from refresh_queues_ok[OF rest, of ext s1] run2
  have same: "same_but_queues s1 s2"
    and out: "\<forall>n. n \<notin> fst ` set rest \<longrightarrow> map_of (queues s2) n = map_of (queues s1) n"
    by auto
  show ?case
  proof (cases "(name, info) = entry")
    case True
    then have eq: "name1 = name" "info1 = info" using entry by auto
    have q: "map_of (queues s2) name = Some q'" using out d(1) s1(2) eq by simp
    have logs: "map_of (queues s) name \<noteq> None \<longrightarrow>
           set (rating_peak_log ext (info_rating_type info)) \<subseteq> set (logger s2)
         \<and> (info_rating_type info, journal_peak ext (info_rating_type info))
               \<in> set (rating_peak_gauge s2)"
      using s1(4) same unfolding eq same_but_queues_def by auto
    from q s1(3) logs show ?thesis unfolding eq by simp
  next
    case False
    with Cons.prems(3) have mem: "(name, info) \<in> set rest" by simp
    then have "name \<in> fst ` set rest" by force
    with d(1) have ne: "name \<noteq> name1" by auto
    from Cons.IH[OF rest d(2) mem run2] ne s1(2) show ?thesis by simp
  qed
qed

lemma remove_absent_map_of:
  "map_of (remove_absent ks db qs) n =
     (if n \<in> set ks \<and> n \<notin> fst ` set db then None else map_of qs n)"
proof (induction ks arbitrary: qs)
  case Nil
  then show ?case by simp
next
  case (Cons k ks)
  show ?case by (simp add: Cons.IH delete_conv')
qed

lemma update_data_ok:
  assumes "pools_known mpm db"
  shows "\<exists>s1 s'. refresh_queues ext mpm db s = Inr s1
     \<and> update_data ext mpm db s = Inr s'
     \<and> same_but_queues s s'
     \<and> (\<forall>n. n \<notin> fst ` set db \<longrightarrow> map_of (queues s') n = None)
     \<and> (\<forall>n. n \<in> fst ` set db \<longrightarrow> map_of (queues s') n = map_of (queues s1) n)
     \<and> (\<forall>n. n \<in> fst ` set db \<longrightarrow> map_of (queues s1) n \<noteq> None)
     \<and> logger s' = logger s1 \<and> rating_peak_gauge s' = rating_peak_gauge s1"
proof -
  from refresh_queues_ok[OF assms, of ext s]
  obtain s1 where s1: "refresh_queues ext mpm db s = Inr s1" "same_but_queues s s1"
    "\<forall>n. n \<in> fst ` set db \<longrightarrow> map_of (queues s1) n \<noteq> None" by blast
  let ?s' = "s1\<lparr>queues := remove_absent (map fst (queues s1)) db (queues s1)\<rparr>"
  have run: "update_data ext mpm db s = Inr ?s'" using s1(1) by (simp add: update_data_def)
  have same: "same_but_queues s ?s'" using s1(2) by (simp add: same_but_queues_def)
  have m: "map_of (queues ?s') n = (if n \<in> fst ` set db then map_of (queues s1) n else None)"
    for n
  proof (cases "n \<in> fst ` set (queues s1)")
    case True
    then show ?thesis by (simp add: remove_absent_map_of)
  next
    case False
    then have "map_of (queues s1) n = None" by (simp add: map_of_eq_None_iff)
    with False show ?thesis by (simp add: remove_absent_map_of)
  qed
  have a: "\<forall>n. n \<notin> fst ` set db \<longrightarrow> map_of (queues ?s') n = None"
    by (simp only: m) simp
  have b: "\<forall>n. n \<in> fst ` set db \<longrightarrow> map_of (queues ?s') n = map_of (queues s1) n"
    by (simp only: m) simp
  have c: "logger ?s' = logger s1 \<and> rating_peak_gauge ?s' = rating_peak_gauge s1" by simp
  show ?thesis
    apply (rule exI[of _ s1])
    apply (rule exI[of _ ?s'])
    using s1(1) run same a b s1(3) c by (intro conjI) blast+
qed

section \<open>Queues removed from the store, and the rating peak\<close>

text \<open>
  C2, as stated, fails in its second half: deleting the queue from the queue map cancels
  nothing.  After a player has started a search in queue \<open>q\<close> and a refresh finds the
  store without \<open>q\<close>, the queue is gone from the map, while the search is still
  registered for the player, is not cancelled, and the player is still searching and was
  sent no \<^verbatim>\<open>search_info\<close> stop.
\<close>

theorem removed_queue_leaves_search_enrolled:
  "(case start_search ext0 [1] ''q''
           ((init_service (\<lambda>i. mk_player i ''p'' 1500 100) (\<lambda>r. mk_search [] []))
              \<lparr>queues := [(''q'', mk_queue ''q'' 1 1000)]\<rparr>) of
      Inl e \<Rightarrow> None
    | Inr s1 \<Rightarrow>
        (case update_data ext0 Map.empty [] s1 of
           Inl e \<Rightarrow> None
         | Inr s2 \<Rightarrow>
             Some (map fst (queues s1), map fst (queues s2), searches s2 1,
                   search_queue (search_heap s2 0), is_cancelled (search_heap s2 0),
                   state (player_heap s2 1), outbox (player_heap s2 1))))
   = Some ([''q''], [], [(''q'', 0)], ''q'', False, SEARCHING_LADDER,
           [Search_info ''q'' ''start''])"
  by (simp add: start_search_def ext0_def init_service_def mk_player_def mk_queue_def
      enroll_def update_player_def write_rating_progress_def write_message_def
      update_data_def Let_def)

text \<open>
  C2, amended: a refresh in which every map pool the store's queues refer to was fetched
  completes, and afterwards the queue map holds exactly the queues of the store, so every
  queue that is absent from the store is removed; the removal leaves the per-player search
  maps, the searches (their cancellation flags too), the players and the enqueued search
  tasks as they were.
\<close>

theorem update_data_removes_absent_queues:
  assumes "pools_known mpm db"
  shows "\<exists>s'. update_data ext mpm db s = Inr s'
     \<and> (\<forall>n. n \<notin> fst ` set db \<longrightarrow> map_of (queues s') n = None)
     \<and> (\<forall>n. n \<in> fst ` set db \<longrightarrow> map_of (queues s') n \<noteq> None)
     \<and> searches s' = searches s \<and> search_heap s' = search_heap s
     \<and> player_heap s' = player_heap s \<and> tasks s' = tasks s"
proof -
  from update_data_ok[OF assms, of ext s]
  obtain s1 s' where r: "refresh_queues ext mpm db s = Inr s1"
    "update_data ext mpm db s = Inr s'"
    "same_but_queues s s'"
    "\<forall>n. n \<notin> fst ` set db \<longrightarrow> map_of (queues s') n = None"
    "\<forall>n. n \<in> fst ` set db \<longrightarrow> map_of (queues s') n = map_of (queues s1) n"
    "\<forall>n. n \<in> fst ` set db \<longrightarrow> map_of (queues s1) n \<noteq> None"
    "logger s' = logger s1" "rating_peak_gauge s' = rating_peak_gauge s1"
    by (elim exE conjE)
  have b: "\<forall>n. n \<in> fst ` set db \<longrightarrow> map_of (queues s') n \<noteq> None"
    using r(5,6) by simp
  have c: "searches s' = searches s \<and> search_heap s' = search_heap s
     \<and> player_heap s' = player_heap s \<and> tasks s' = tasks s"
    using r(3) by (simp add: same_but_queues_def)
  from r(2,4) b c show ?thesis by blast
qed

theorem update_data_removes_absent_queues_witness:
  "pools_known Map.empty []
   \<and> (case update_data ext0 Map.empty []
           ((init_service (\<lambda>i. mk_player i ''p'' 1500 100) (\<lambda>r. mk_search [1] ''q''))
              \<lparr>queues := [(''q'', mk_queue ''q'' 1 1000)],
                searches := (\<lambda>p. [(''q'', 0)])\<rparr>) of
        Inl e \<Rightarrow> None
      | Inr s' \<Rightarrow> Some (map_of (queues s') ''q'', searches s' 1))
     = Some (None, [(''q'', 0)])"
  using update_data_removes_absent_queues
    [of Map.empty "[]" ext0
        "(init_service (\<lambda>i. mk_player i ''p'' 1500 100) (\<lambda>r. mk_search [1] ''q''))
              \<lparr>queues := [(''q'', mk_queue ''q'' 1 1000)],
                searches := (\<lambda>p. [(''q'', 0)])\<rparr>"]
  by (simp add: pools_known_def update_data_def init_service_def)

text \<open>
  C8, as stated, fails for a queue that the refresh creates: \<^verbatim>\<open>fetch_rating_peak\<close> is
  called only in the branch for a queue that exists already.  With a journal whose peak is
  900, the new queue keeps the rating peak of its constructor (here 1000), no gauge is set
  and nothing is logged.
\<close>

theorem new_queue_rating_peak_not_recomputed:
  "(case update_data (ext0\<lparr>rating_journal := (\<lambda>rt. [(900, 0)])\<rparr>) Map.empty
           [(''q'', mk_info [])]
           (init_service (\<lambda>i. mk_player i ''p'' 1500 100) (\<lambda>r. mk_search [] [])) of
      Inl e \<Rightarrow> None
    | Inr s' \<Rightarrow> Some (map (\<lambda>(n, q). (n, rating_peak q)) (queues s'),
                      rating_peak_gauge s', logger s'))
   = Some ([(''q'', 1000)], [], [])
   \<and> journal_peak (ext0\<lparr>rating_journal := (\<lambda>rt. [(900, 0)])\<rparr>) ''global'' = 900"
  by (simp add: update_data_def refresh_queue_def ext0_def init_service_def mk_info_def
      journal_peak_def Let_def)

text \<open>
  C8, amended: \<^verbatim>\<open>fetch_rating_peak\<close> returns the mean of
  (mean_before - 3 * deviation_before) over the newest at most 1000 journal rows of the
  rating type, 1000 when there are none; and a refresh (with distinct queue names and
  every referred map pool fetched) gives every queue of the store that existed in the
  service before the refresh that rating peak for the store's rating type of the queue,
  sets the gauge, and logs a warning when fewer than 100 rows were fetched and a warning
  when the peak lies outside [600, 1200] (an info record otherwise).
\<close>

theorem update_data_recomputes_rating_peak_of_existing_queues:
  assumes "pools_known mpm db" and "distinct (map fst db)" and "(name, info) \<in> set db"
    and "map_of (queues s) name \<noteq> None"
  shows "fst (fetch_rating_peak ext (info_rating_type info) s)
           = journal_peak ext (info_rating_type info)
     \<and> (\<exists>s' q. update_data ext mpm db s = Inr s' \<and> map_of (queues s') name = Some q
          \<and> rating_peak q = journal_peak ext (info_rating_type info)
          \<and> set (rating_peak_log ext (info_rating_type info)) \<subseteq> set (logger s')
          \<and> (info_rating_type info, journal_peak ext (info_rating_type info))
                \<in> set (rating_peak_gauge s'))"
proof -
  from update_data_ok[OF assms(1), of ext s]
  obtain s1 s' where r: "refresh_queues ext mpm db s = Inr s1"
    "update_data ext mpm db s = Inr s'"
    "same_but_queues s s'"
    "\<forall>n. n \<notin> fst ` set db \<longrightarrow> map_of (queues s') n = None"
    "\<forall>n. n \<in> fst ` set db \<longrightarrow> map_of (queues s') n = map_of (queues s1) n"
    "\<forall>n. n \<in> fst ` set db \<longrightarrow> map_of (queues s1) n \<noteq> None"
    "logger s' = logger s1" "rating_peak_gauge s' = rating_peak_gauge s1"
    by (elim exE conjE)
  from refresh_queues_entry[OF assms(1,2,3) r(1)] assms(4)
  obtain q where q: "map_of (queues s1) name = Some q"
    "rating_peak q = journal_peak ext (info_rating_type info)"
    "set (rating_peak_log ext (info_rating_type info)) \<subseteq> set (logger s1)"
    "(info_rating_type info, journal_peak ext (info_rating_type info))
               \<in> set (rating_peak_gauge s1)" by auto
  have "name \<in> fst ` set db" using assms(3) by force
  with r(5) q(1) have "map_of (queues s') name = Some q" by simp
  with r(2,7,8) q show ?thesis by (simp add: fetch_rating_peak_value)
qed

theorem update_data_recomputes_rating_peak_of_existing_queues_witness:
  "pools_known Map.empty [(''q'', mk_info [])] \<and> distinct (map fst [(''q'', mk_info [])])
   \<and> journal_peak (ext0\<lparr>rating_journal := (\<lambda>rt. [(900, 0), (1200, 100)])\<rparr>) ''global'' = 900
   \<and> (case update_data (ext0\<lparr>rating_journal := (\<lambda>rt. [(900, 0), (1200, 100)])\<rparr>) Map.empty
           [(''q'', mk_info [])]
           ((init_service (\<lambda>i. mk_player i ''p'' 1500 100) (\<lambda>r. mk_search [] []))
              \<lparr>queues := [(''q'', mk_queue ''q'' 1 1000)]\<rparr>) of
        Inl e \<Rightarrow> None
      | Inr s' \<Rightarrow> Some (map (\<lambda>(n, q). (n, rating_peak q)) (queues s'),
                        rating_peak_gauge s', logger s'))
     = Some ([(''q'', 900)], [(''global'', 900)],
             [Warn_few_ratings 2 ''global'', Info_rating_peak ''global'' 900])"
  using update_data_recomputes_rating_peak_of_existing_queues
    [of Map.empty "[(''q'', mk_info [])]" "''q''" "mk_info []"
        "(init_service (\<lambda>i. mk_player i ''p'' 1500 100) (\<lambda>r. mk_search [] []))
              \<lparr>queues := [(''q'', mk_queue ''q'' 1 1000)]\<rparr>"
        "ext0\<lparr>rating_journal := (\<lambda>rt. [(900, 0), (1200, 100)])\<rparr>"]
  by (simp add: pools_known_def update_data_def refresh_queue_def ext0_def init_service_def
      mk_info_def mk_queue_def journal_peak_def fetch_rating_peak_def mean_def Let_def)

section \<open>Properties of the slot assignment\<close>

lemma assign_player_option_get:
  assumes "assign_player_option i key v g = Inr g'"
  shows "get_player_option g' j k = (if j = i \<and> k = key then Some v else get_player_option g j k)"
    and "missing_id_creates g' = missing_id_creates g"
    and "game_id g' = game_id g"
  using assms
  by (auto simp: assign_player_option_def get_player_option_def split: option.splits if_splits)

lemma assign_slot_options_get:
  assumes "assign_slot_options pid fac tm slot g = Inr g'"
  shows "get_player_option g' j k =
           (if j = pid \<and> k = ''Faction'' then Some fac
            else if j = pid \<and> k = ''Team'' then Some tm
            else if j = pid \<and> (k = ''StartSpot'' \<or> k = ''Army'' \<or> k = ''Color'') then Some slot
            else get_player_option g j k)"
proof -
  from assms obtain g1 g2 g3 g4 where
    a: "assign_player_option pid ''Faction'' fac g = Inr g1"
       "assign_player_option pid ''Team'' tm g1 = Inr g2"
       "assign_player_option pid ''StartSpot'' slot g2 = Inr g3"
       "assign_player_option pid ''Army'' slot g3 = Inr g4"
       "assign_player_option pid ''Color'' slot g4 = Inr g'"
    by (auto simp: assign_slot_options_def split: sum.splits)
  show ?thesis
    by (auto simp: assign_player_option_get(1)[OF a(5)] assign_player_option_get(1)[OF a(4)]
        assign_player_option_get(1)[OF a(3)] assign_player_option_get(1)[OF a(2)]
        assign_player_option_get(1)[OF a(1)])
qed

lemma assign_slots_players:
  "assign_slots g i ps s = (r, s') \<Longrightarrow>
     player_id (player_heap s' q) = player_id (player_heap s q)
     \<and> faction (player_heap s' q) = faction (player_heap s q)"
proof (induction ps arbitrary: i s)
  case Nil
  then show ?case by simp
next
  case (Cons p ps)
  let ?s1 = "update_player p (\<lambda>pl. pl\<lparr>game := Some g\<rparr>) s"
  have keep: "player_id (player_heap ?s1 q) = player_id (player_heap s q)
     \<and> faction (player_heap ?s1 q) = faction (player_heap s q)"
    by (simp add: update_player_def)
  show ?case
  proof (cases "assign_slot_options (player_id (player_heap ?s1 p)) (faction (player_heap ?s1 p))
                  (int (i mod 2) + 2) (int i + 1) (game_heap ?s1 g)")
    case (Inl e)
    with Cons.prems have "s' = ?s1" by (simp add: Let_def)
    with keep show ?thesis by simp
  next
    case (Inr g')
    with Cons.prems
    have "assign_slots g (Suc i) ps (?s1\<lparr>game_heap := (game_heap ?s1)(g := g')\<rparr>) = (r, s')"
      by (simp add: Let_def)
    from Cons.IH[OF this] keep show ?thesis by (simp add: update_player_def)
  qed
qed

lemma assign_slots_options:
  assumes "assign_slots g i ps s = (Inr (), s')"
    and "distinct (map (\<lambda>p. player_id (player_heap s p)) ps)"
  shows "(\<forall>pid k. pid \<notin> (\<lambda>p. player_id (player_heap s p)) ` set ps \<longrightarrow>
            get_player_option (game_heap s' g) pid k = get_player_option (game_heap s g) pid k)
       \<and> (\<forall>j < length ps. \<forall>k.
            get_player_option (game_heap s' g) (player_id (player_heap s (ps ! j))) k =
              (if k = ''Faction'' then Some (faction (player_heap s (ps ! j)))
               else if k = ''Team'' then Some (int ((i + j) mod 2) + 2)
               else if k = ''StartSpot'' \<or> k = ''Army'' \<or> k = ''Color'' then Some (int (i + j) + 1)
               else get_player_option (game_heap s g) (player_id (player_heap s (ps ! j))) k))"
  using assms
proof (induction ps arbitrary: i s)
  case Nil
  then show ?case by simp
next
  case (Cons p ps)
  let ?s1 = "update_player p (\<lambda>pl. pl\<lparr>game := Some g\<rparr>) s"
  let ?pid = "player_id (player_heap s p)"
  have id1: "player_id (player_heap ?s1 q) = player_id (player_heap s q)" for q
    by (simp add: update_player_def)
  have fac1: "faction (player_heap ?s1 q) = faction (player_heap s q)" for q
    by (simp add: update_player_def)
  have gh1: "game_heap ?s1 = game_heap s" by (simp add: update_player_def)
  from Cons.prems(1) obtain g' where
    g': "assign_slot_options ?pid (faction (player_heap s p)) (int (i mod 2) + 2) (int i + 1)
           (game_heap s g) = Inr g'"
    and rest: "assign_slots g (Suc i) ps (?s1\<lparr>game_heap := (game_heap ?s1)(g := g')\<rparr>) = (Inr (), s')"
    by (auto simp: Let_def id1 fac1 gh1 split: sum.splits)
  let ?s2 = "?s1\<lparr>game_heap := (game_heap ?s1)(g := g')\<rparr>"
  have id2: "player_id (player_heap ?s2 q) = player_id (player_heap s q)" for q
    by (simp add: update_player_def)
  have fac2: "faction (player_heap ?s2 q) = faction (player_heap s q)" for q
    by (simp add: update_player_def)
  have d2: "distinct (map (\<lambda>p. player_id (player_heap ?s2 p)) ps)"
    using Cons.prems(2) by (simp add: id1)
  note IH = Cons.IH[OF rest d2, unfolded id2 fac2]
  have g2: "game_heap ?s2 g = g'" by simp
  note opt = assign_slot_options_get[OF g']
  have notin: "?pid \<notin> (\<lambda>p. player_id (player_heap s p)) ` set ps"
    using Cons.prems(2) by auto
  show ?case
  proof (intro conjI allI impI)
    fix pid k assume "pid \<notin> (\<lambda>p. player_id (player_heap s p)) ` set (p # ps)"
    then have a: "pid \<noteq> ?pid" "pid \<notin> (\<lambda>p. player_id (player_heap s p)) ` set ps" by auto
    from IH a(2) have "get_player_option (game_heap s' g) pid k = get_player_option g' pid k"
      by (simp add: g2)
    then show "get_player_option (game_heap s' g) pid k = get_player_option (game_heap s g) pid k"
      using a(1) by (simp add: opt)
  next
    fix j k assume j: "j < length (p # ps)"
    show "get_player_option (game_heap s' g) (player_id (player_heap s ((p # ps) ! j))) k =
              (if k = ''Faction'' then Some (faction (player_heap s ((p # ps) ! j)))
               else if k = ''Team'' then Some (int ((i + j) mod 2) + 2)
               else if k = ''StartSpot'' \<or> k = ''Army'' \<or> k = ''Color'' then Some (int (i + j) + 1)
               else get_player_option (game_heap s g)
                      (player_id (player_heap s ((p # ps) ! j))) k)"
    proof (cases j)
      case 0
      from IH notin have "get_player_option (game_heap s' g) ?pid k = get_player_option g' ?pid k"
        by (simp add: g2)
      then show ?thesis using 0 by (simp add: opt)
    next
      case (Suc j')
      with j have j': "j' < length ps" by simp
      then have "player_id (player_heap s (ps ! j')) \<noteq> ?pid"
        using notin by (metis image_eqI nth_mem)
      then show ?thesis using IH j' Suc by (simp add: g2 opt)
    qed
  qed
qed

lemma mset_flatten_pairs:
  "mset (concat (map (\<lambda>pair. [fst pair, snd pair]) zs)) =
     sum_mset (image_mset (\<lambda>pair. {#fst pair, snd pair#}) (mset zs))"
  by (induction zs) simp_all

lemma mset_flatten_zip:
  "length xs = length ys \<Longrightarrow>
     mset (concat (map (\<lambda>pair. [fst pair, snd pair]) (zip xs ys))) = mset xs + mset ys"
  by (induction xs ys rule: list_induct2) simp_all

lemma mset_slot_order:
  assumes "length team1 = length team2" and "\<forall>zs. mset (shuffle ext zs) = mset zs"
  shows "mset (slot_order ext s rt team1 team2) = mset (team1 @ team2)"
proof -
  let ?m = "\<lambda>p. fst (ratings (player_heap s p) rt)"
  have "mset (slot_order ext s rt team1 team2) =
        sum_mset (image_mset (\<lambda>pair. {#fst pair, snd pair#})
          (mset (shuffle ext (zip (sort_key ?m team1) (sort_key ?m team2)))))"
    by (simp add: slot_order_def Let_def mset_flatten_pairs)
  also have "\<dots> = sum_mset (image_mset (\<lambda>pair. {#fst pair, snd pair#})
          (mset (zip (sort_key ?m team1) (sort_key ?m team2))))"
    using assms(2) by simp
  also have "\<dots> = mset (concat (map (\<lambda>pair. [fst pair, snd pair])
          (zip (sort_key ?m team1) (sort_key ?m team2))))"
    by (simp add: mset_flatten_pairs)
  also have "\<dots> = mset (sort_key ?m team1) + mset (sort_key ?m team2)"
    using assms(1) by (intro mset_flatten_zip) simp
  finally show ?thesis by simp
qed

lemma distinct_slot_order:
  assumes "length team1 = length team2" and "\<forall>zs. mset (shuffle ext zs) = mset zs"
    and "distinct (map f (team1 @ team2))"
  shows "distinct (map f (slot_order ext s rt team1 team2))"
proof -
  have "mset (map f (slot_order ext s rt team1 team2)) = mset (map f (team1 @ team2))"
    using mset_slot_order[OF assms(1,2)] by (metis mset_map)
  then show ?thesis using assms(3) by (metis mset_eq_imp_distinct_iff)
qed

lemma flatten_pairs_nth:
  assumes "\<forall>pair \<in> set zs. fst pair \<in> A \<and> snd pair \<in> B" and "j < 2 * length zs"
  shows "concat (map (\<lambda>pair. [fst pair, snd pair]) zs) ! j \<in> (if even j then A else B)"
  using assms
proof (induction zs arbitrary: j)
  case Nil
  then show ?case by simp
next
  case (Cons z zs)
  show ?case
  proof (cases j)
    case 0
    with Cons.prems show ?thesis by simp
  next
    case (Suc j1)
    show ?thesis
    proof (cases j1)
      case 0
      with Suc Cons.prems show ?thesis by simp
    next
      case (Suc j2)
      with \<open>j = Suc j1\<close> Cons.prems have "j2 < 2 * length zs" by simp
      from Cons.IH[OF _ this] Cons.prems(1)
      have "concat (map (\<lambda>pair. [fst pair, snd pair]) zs) ! j2 \<in> (if even j2 then A else B)"
        by simp
      with Suc \<open>j = Suc j1\<close> show ?thesis by simp
    qed
  qed
qed

lemma slot_order_team:
  assumes "length team1 = length team2" and "\<forall>zs. mset (shuffle ext zs) = mset zs"
    and "j < length team1 + length team2"
  shows "slot_order ext s rt team1 team2 ! j \<in> set (if even j then team1 else team2)"
proof -
  let ?m = "\<lambda>p. fst (ratings (player_heap s p) rt)"
  let ?zs = "shuffle ext (zip (sort_key ?m team1) (sort_key ?m team2))"
  have ms: "mset ?zs = mset (zip (sort_key ?m team1) (sort_key ?m team2))"
    using assms(2) by simp
  have "length ?zs = length (zip (sort_key ?m team1) (sort_key ?m team2))"
    using ms by (metis size_mset)
  with assms(1) have len: "length ?zs = length team1" by simp
  have "set ?zs = set (zip (sort_key ?m team1) (sort_key ?m team2))"
    using ms by (metis set_mset_mset)
  then have pairs: "\<forall>pair \<in> set ?zs. fst pair \<in> set team1 \<and> snd pair \<in> set team2"
    by (auto dest: set_zip_leftD set_zip_rightD)
  have j: "j < 2 * length ?zs" using assms(1,3) len by simp
  from flatten_pairs_nth[OF pairs j]
  show ?thesis by (auto simp: slot_order_def Let_def split: if_splits)
qed

text \<open>
  C1, as stated, fails in the parity of the team: the team number is computed from the
  0-based index of the enumeration, so the player in slot 1 (an odd slot) is in team 2 and
  the player in slot 2 in team 3.
\<close>

theorem first_slot_gets_team_two:
  "(case assign_slots 0 0
           (slot_order ext0 (init_service (\<lambda>i. mk_player i ''p'' 1500 100) (\<lambda>r. mk_search [] []))
              ''global'' [1] [2])
           (init_service (\<lambda>i. mk_player i ''p'' 1500 100) (\<lambda>r. mk_search [] [])) of
      (Inl e, s') \<Rightarrow> None
    | (Inr u, s') \<Rightarrow>
        Some (map (\<lambda>p. (p, get_player_option (game_heap s' 0) (player_id (player_heap s' p))
                             ''StartSpot'',
                         get_player_option (game_heap s' 0) (player_id (player_heap s' p))
                             ''Team''))
                (slot_order ext0
                   (init_service (\<lambda>i. mk_player i ''p'' 1500 100) (\<lambda>r. mk_search [] []))
                   ''global'' [1] [2])))
   = Some [(1, Some 1, Some 2), (2, Some 2, Some 3)]"
  by (simp add: slot_order_def ext0_def init_service_def mk_player_def update_player_def
      assign_slot_options_def assign_player_option_def get_player_option_def Let_def)

text \<open>
  C1, amended: for two teams of equal size whose players have distinct ids, and a shuffle
  that permutes the pairs, when the slot loop has completed, the player enumerated in the
  1-based slot \<open>k\<close> is a player of the first team when \<open>k\<close> is odd and of the second team
  when \<open>k\<close> is even, and has the player options StartSpot = Army = Color = \<open>k\<close>, Team = 2
  when \<open>k\<close> is odd and 3 when \<open>k\<close> is even, and Faction = the player's faction value; so
  every player of the first team has Team = 2 and every player of the second team has
  Team = 3; the Team, Faction and StartSpot that \<^verbatim>\<open>make_game_options\<close> reads back with
  \<^verbatim>\<open>get_player_option\<close> for the launch options are these values, in every later state
  in which the game's player options and the players' ids are still those the loop left.
\<close>

theorem slot_determines_player_options:
  assumes "length team1 = length team2"
    and "\<forall>zs. mset (shuffle ext zs) = mset zs"
    and "distinct (map (\<lambda>p. player_id (player_heap s p)) (team1 @ team2))"
    and "assign_slots g 0 (slot_order ext s rt team1 team2) s = (Inr (), s')"
    and "1 \<le> k" and "k \<le> length team1 + length team2"
    and "player_options (game_heap later g) = player_options (game_heap s' g)"
    and "\<forall>q. player_id (player_heap later q) = player_id (player_heap s' q)"
  shows "(let p = slot_order ext s rt team1 team2 ! (k - 1);
              pid = player_id (player_heap s' p);
              launch_options = make_game_options mn n go g later p
          in p \<in> set (team1 @ team2)
           \<and> p \<in> set (if even k then team2 else team1)
           \<and> get_player_option (game_heap s' g) pid ''StartSpot'' = Some (int k)
           \<and> get_player_option (game_heap s' g) pid ''Army'' = Some (int k)
           \<and> get_player_option (game_heap s' g) pid ''Color'' = Some (int k)
           \<and> get_player_option (game_heap s' g) pid ''Team'' = Some (if even k then 3 else 2)
           \<and> get_player_option (game_heap s' g) pid ''Faction'' = Some (faction (player_heap s' p))
           \<and> map_position launch_options = Some (int k)
           \<and> team launch_options = Some (if even k then 3 else 2)
           \<and> faction_option launch_options = Some (faction (player_heap s' p)))
       \<and> (\<forall>q \<in> set team1.
             get_player_option (game_heap s' g) (player_id (player_heap s' q)) ''Team'' = Some 2
             \<and> team (make_game_options mn n go g later q) = Some 2)
       \<and> (\<forall>q \<in> set team2.
             get_player_option (game_heap s' g) (player_id (player_heap s' q)) ''Team'' = Some 3
             \<and> team (make_game_options mn n go g later q) = Some 3)"
proof -
  let ?slots = "slot_order ext s rt team1 team2"
  let ?p = "?slots ! (k - 1)"
  have ms: "mset ?slots = mset (team1 @ team2)" by (rule mset_slot_order[OF assms(1,2)])
  then have len: "length ?slots = length team1 + length team2"
    by (metis length_append size_mset)
  with assms(5,6) have j: "k - 1 < length ?slots" by simp
  have mem: "?p \<in> set (team1 @ team2)"
    using j ms by (metis nth_mem set_mset_mset)
  have side: "?p \<in> set (if even k then team2 else team1)"
  proof -
    have "k - 1 < length team1 + length team2" using j len by simp
    from slot_order_team[OF assms(1,2) this, of s rt]
    have "?p \<in> set (if even (k - 1) then team1 else team2)" .
    moreover have "even (k - 1) \<longleftrightarrow> \<not> even k" using assms(5) by (cases k) simp_all
    ultimately show ?thesis by (auto split: if_splits)
  qed
  have d: "distinct (map (\<lambda>p. player_id (player_heap s p)) ?slots)"
    by (rule distinct_slot_order[OF assms(1,2,3)])
  have keep: "player_id (player_heap s' q) = player_id (player_heap s q)"
             "faction (player_heap s' q) = faction (player_heap s q)" for q
    using assign_slots_players[OF assms(4), of q] by simp_all
  have optj: "get_player_option (game_heap s' g) (player_id (player_heap s (?slots ! j))) key =
              (if key = ''Faction'' then Some (faction (player_heap s (?slots ! j)))
               else if key = ''Team'' then Some (int ((0 + j) mod 2) + 2)
               else if key = ''StartSpot'' \<or> key = ''Army'' \<or> key = ''Color''
                 then Some (int (0 + j) + 1)
               else get_player_option (game_heap s g) (player_id (player_heap s (?slots ! j))) key)"
    if "j < length ?slots" for j key
    using assign_slots_options[OF assms(4) d] that by blast
  note opt = optj[OF j]
  have slot: "int (0 + (k - 1)) + 1 = int k" using assms(5) by simp
  have tm: "int ((0 + (k - 1)) mod 2) + 2 = (if even k then 3 else 2)"
    using assms(5) by (cases k) (auto simp: mod_2_eq_odd)
  let ?pid = "player_id (player_heap s' ?p)"
  have pid: "?pid = player_id (player_heap s ?p)" by (rule keep(1))
  have o1: "get_player_option (game_heap s' g) ?pid ''StartSpot'' = Some (int k)"
    unfolding pid opt slot by simp
  have o2: "get_player_option (game_heap s' g) ?pid ''Army'' = Some (int k)"
    unfolding pid opt slot by simp
  have o3: "get_player_option (game_heap s' g) ?pid ''Color'' = Some (int k)"
    unfolding pid opt slot by simp
  have o4: "get_player_option (game_heap s' g) ?pid ''Team'' = Some (if even k then 3 else 2)"
    unfolding pid opt tm by simp
  have o5: "get_player_option (game_heap s' g) ?pid ''Faction'' = Some (faction (player_heap s' ?p))"
    unfolding pid opt keep(2) by simp
  have later: "get_player_option (game_heap later g) (player_id (player_heap later q)) key =
                 get_player_option (game_heap s' g) (player_id (player_heap s' q)) key" for key q
    using assms(7,8) by (simp add: get_player_option_def)
  have disj: "set team1 \<inter> set team2 = {}"
    using assms(3) by (metis distinct_append distinct_map map_append)
  have of_team: "get_player_option (game_heap s' g) (player_id (player_heap s' q)) ''Team''
                   = Some (if q \<in> set team1 then 2 else 3)"
    if q: "q \<in> set (team1 @ team2)" for q
  proof -
    from q ms have "q \<in> set ?slots" by (metis set_mset_mset)
    then obtain i where i: "i < length ?slots" "?slots ! i = q" by (auto simp: in_set_conv_nth)
    from i(1) len have "i < length team1 + length team2" by simp
    from slot_order_team[OF assms(1,2) this, of s rt] i(2)
    have "q \<in> set (if even i then team1 else team2)" by simp
    with disj have ev: "even i \<longleftrightarrow> q \<in> set team1" by (auto split: if_splits)
    have "get_player_option (game_heap s' g) (player_id (player_heap s q)) ''Team''
            = Some (int ((0 + i) mod 2) + 2)"
      using optj[OF i(1), of "''Team''"] i(2) by simp
    moreover have "int ((0 + i) mod 2) + 2 = (if q \<in> set team1 then 2 else 3)"
      using ev by (auto simp: mod_2_eq_odd)
    ultimately show ?thesis by (simp add: keep(1))
  qed
  have t1: "\<forall>q \<in> set team1.
             get_player_option (game_heap s' g) (player_id (player_heap s' q)) ''Team'' = Some 2
             \<and> team (make_game_options mn n go g later q) = Some 2"
    using of_team later[of _ "''Team''"] by (simp add: make_game_options_def)
  have t2: "\<forall>q \<in> set team2.
             get_player_option (game_heap s' g) (player_id (player_heap s' q)) ''Team'' = Some 3
             \<and> team (make_game_options mn n go g later q) = Some 3"
    using of_team later[of _ "''Team''"] disj by (auto simp: make_game_options_def)
  have slot_part: "(let p = slot_order ext s rt team1 team2 ! (k - 1);
              pid = player_id (player_heap s' p);
              launch_options = make_game_options mn n go g later p
          in p \<in> set (team1 @ team2)
           \<and> p \<in> set (if even k then team2 else team1)
           \<and> get_player_option (game_heap s' g) pid ''StartSpot'' = Some (int k)
           \<and> get_player_option (game_heap s' g) pid ''Army'' = Some (int k)
           \<and> get_player_option (game_heap s' g) pid ''Color'' = Some (int k)
           \<and> get_player_option (game_heap s' g) pid ''Team'' = Some (if even k then 3 else 2)
           \<and> get_player_option (game_heap s' g) pid ''Faction'' = Some (faction (player_heap s' p))
           \<and> map_position launch_options = Some (int k)
           \<and> team launch_options = Some (if even k then 3 else 2)
           \<and> faction_option launch_options = Some (faction (player_heap s' p)))"
    unfolding Let_def make_game_options_def
    using mem side o1 o2 o3 o4 o5 later[of ?p "''Team''"] later[of ?p "''Faction''"]
      later[of ?p "''StartSpot''"]
    by simp
  from slot_part t1 t2 show ?thesis by blast
qed

theorem slot_determines_player_options_witness:
  "slot_order ext0 (init_service (\<lambda>i. mk_player i ''p'' 1500 100) (\<lambda>r. mk_search [] []))
      ''global'' [1, 2] [3, 4] = [2, 4, 1, 3]
   \<and> fst (assign_slots 0 0 [2, 4, 1, 3]
        (init_service (\<lambda>i. mk_player i ''p'' 1500 100) (\<lambda>r. mk_search [] []))) = Inr ()
   \<and> get_player_option (game_heap (snd (assign_slots 0 0 [2, 4, 1, 3]
        (init_service (\<lambda>i. mk_player i ''p'' 1500 100) (\<lambda>r. mk_search [] [])))) 0) 1
        ''StartSpot'' = Some 3
   \<and> get_player_option (game_heap (snd (assign_slots 0 0 [2, 4, 1, 3]
        (init_service (\<lambda>i. mk_player i ''p'' 1500 100) (\<lambda>r. mk_search [] [])))) 0) 1
        ''Team'' = Some 2
   \<and> team (make_game_options ''x'' 4 None 0 (snd (assign_slots 0 0 [2, 4, 1, 3]
        (init_service (\<lambda>i. mk_player i ''p'' 1500 100) (\<lambda>r. mk_search [] [])))) 1) = Some 2
   \<and> map (\<lambda>q. team (make_game_options ''x'' 4 None 0 (snd (assign_slots 0 0 [2, 4, 1, 3]
        (init_service (\<lambda>i. mk_player i ''p'' 1500 100) (\<lambda>r. mk_search [] [])))) q)) [1, 2, 3, 4]
       = [Some 2, Some 2, Some 3, Some 3]"
proof -
  let ?s = "init_service (\<lambda>i. mk_player i ''p'' 1500 100) (\<lambda>r. mk_search [] [])"
  have so: "slot_order ext0 ?s ''global'' [1, 2] [3, 4] = [2, 4, 1, 3]"
    by (simp add: slot_order_def ext0_def init_service_def mk_player_def)
  have ok: "fst (assign_slots 0 0 [2, 4, 1, 3] ?s) = Inr ()"
    by (simp add: init_service_def mk_player_def update_player_def
        assign_slot_options_def assign_player_option_def Let_def)
  have h1: "length [1::nat, 2] = length [3::nat, 4]" by simp
  have h2: "\<forall>zs. mset (shuffle ext0 zs) = mset zs" by (simp add: ext0_def)
  have h3: "distinct (map (\<lambda>p. player_id (player_heap ?s p)) ([1, 2] @ [3, 4]))"
    by (simp add: init_service_def mk_player_def)
  have h4: "assign_slots 0 0 (slot_order ext0 ?s ''global'' [1, 2] [3, 4]) ?s
              = (Inr (), snd (assign_slots 0 0 [2, 4, 1, 3] ?s))"
    using ok unfolding so by (simp add: prod_eq_iff)
  have h5: "1 \<le> (3::nat)" "3 \<le> length [1::nat, 2] + length [3::nat, 4]" by simp_all
  have id1: "player_id (player_heap (snd (assign_slots 0 0 [2, 4, 1, 3] ?s)) 1) = 1"
    using assign_slots_players[of 0 0 "[2, 4, 1, 3]" ?s "fst (assign_slots 0 0 [2, 4, 1, 3] ?s)"
        "snd (assign_slots 0 0 [2, 4, 1, 3] ?s)" 1]
    by (simp add: init_service_def mk_player_def)
  from slot_determines_player_options[OF h1 h2 h3 h4 h5, of _ "''x''" 4 None, OF refl]
  show ?thesis using so ok id1 by (simp add: Let_def)
qed

section \<open>Properties of the launch\<close>

lemma write_launch_game_connected:
  "lobby_connection (player_heap s p) = Some sent \<Longrightarrow>
     write_launch_game p g h opts s =
       (Inr (), update_player p (\<lambda>pl. pl\<lparr>lobby_connection :=
                 Some (sent @ [\<lparr>launched_game = g, is_host = h, options = opts\<rparr>])\<rparr>) s)"
  by (simp add: write_launch_game_def)

lemma make_game_options_connection [simp]:
  "make_game_options mn n go g (update_player p (\<lambda>pl. pl\<lparr>lobby_connection := c\<rparr>) s) q
     = make_game_options mn n go g s q"
  by (simp add: make_game_options_def update_player_def)

lemma launch_guests_connected:
  "\<forall>guest \<in> set guests. lobby_connection (player_heap s guest) \<noteq> None \<Longrightarrow>
     \<exists>s'. launch_guests g (make_game_options mn n go g) guests s = (Inr (), s')
       \<and> game_heap s' = game_heap s
       \<and> (\<forall>p. player_id (player_heap s' p) = player_id (player_heap s p))
       \<and> (\<forall>p. lobby_connection (player_heap s' p) =
               map_option (\<lambda>sent. sent @ replicate (count_list guests p)
                   \<lparr>launched_game = g, is_host = False,
                    options = make_game_options mn n go g s p\<rparr>)
                 (lobby_connection (player_heap s p)))"
proof (induction guests arbitrary: s)
  case Nil
  then show ?case by (simp add: option.map_ident)
next
  case (Cons guest guests)
  from Cons.prems obtain sent where sent: "lobby_connection (player_heap s guest) = Some sent"
    by auto
  let ?m = "\<lparr>launched_game = g, is_host = False,
             options = make_game_options mn n go g s guest\<rparr>"
  let ?s1 = "update_player guest (\<lambda>pl. pl\<lparr>lobby_connection := Some (sent @ [?m])\<rparr>) s"
  have w: "write_launch_game guest g False (make_game_options mn n go g s guest) s = (Inr (), ?s1)"
    using sent by (rule write_launch_game_connected)
  have conn1: "\<forall>q \<in> set guests. lobby_connection (player_heap ?s1 q) \<noteq> None"
    using Cons.prems by (simp add: update_player_def)
  from Cons.IH[OF conn1]
  obtain s' where s': "launch_guests g (make_game_options mn n go g) guests ?s1 = (Inr (), s')"
    "game_heap s' = game_heap ?s1"
    "\<forall>p. player_id (player_heap s' p) = player_id (player_heap ?s1 p)"
    "\<forall>p. lobby_connection (player_heap s' p) =
               map_option (\<lambda>sent. sent @ replicate (count_list guests p)
                   \<lparr>launched_game = g, is_host = False,
                    options = make_game_options mn n go g ?s1 p\<rparr>)
                 (lobby_connection (player_heap ?s1 p))" by blast
  have run: "launch_guests g (make_game_options mn n go g) (guest # guests) s = (Inr (), s')"
    using sent w s'(1) by simp
  have gh: "game_heap s' = game_heap s" using s'(2) by (simp add: update_player_def)
  have pid: "\<forall>p. player_id (player_heap s' p) = player_id (player_heap s p)"
    using s'(3) by (simp add: update_player_def)
  have mk1: "make_game_options mn n go g ?s1 p = make_game_options mn n go g s p" for p
    by simp
  note s4 = s'(4)[unfolded mk1]
  have lc: "lobby_connection (player_heap s' p) =
               map_option (\<lambda>sent. sent @ replicate (count_list (guest # guests) p)
                   \<lparr>launched_game = g, is_host = False,
                    options = make_game_options mn n go g s p\<rparr>)
                 (lobby_connection (player_heap s p))" for p
  proof (cases "p = guest")
    case True
    then show ?thesis using s4 sent
      by (simp add: update_player_def replicate_app_Cons_same)
  next
    case False
    then show ?thesis using s4 by (simp add: update_player_def)
  qed
  from run gh pid lc show ?case by blast
qed

text \<open>
  C3: when the host has a connection, the wait for the game to be hosted (60 seconds)
  times out, and every guest has a connection when the cleanup block runs, then
  \<^verbatim>\<open>launch_match\<close> fails with \<^verbatim>\<open>NotConnectedError\<close> naming exactly the host, after
  the cleanup block has written to every guest, once per occurrence among the guests, a
  \<^verbatim>\<open>launch_game\<close> with \<^verbatim>\<open>is_host\<close> false and that guest's options.
\<close>

theorem hosted_timeout_names_host_and_launches_guests:
  assumes "lobby_connection (player_heap s host) \<noteq> None"
    and "wait_hosted ext g 60
           (snd (write_launch_game host g True (make_game_options mn n go g s host) s))
         = (Inl TimeoutError, s2)"
    and "\<forall>guest \<in> set guests. lobby_connection (player_heap s2 guest) \<noteq> None"
  shows "\<exists>s3. launch_match ext g host guests (make_game_options mn n go g) s
               = (Inl (NotConnectedError [host]), s3)
     \<and> (\<forall>p. lobby_connection (player_heap s3 p) =
            map_option (\<lambda>sent. sent @ replicate (count_list guests p)
                \<lparr>launched_game = g, is_host = False,
                 options = make_game_options mn n go g s2 p\<rparr>)
              (lobby_connection (player_heap s2 p)))"
proof -
  from assms(1) obtain sent where sent: "lobby_connection (player_heap s host) = Some sent"
    by auto
  let ?mk = "make_game_options mn n go g"
  obtain s1 where w: "write_launch_game host g True (?mk s host) s = (Inr (), s1)"
    using write_launch_game_connected[OF sent] by blast
  from assms(2) w have wh: "wait_hosted ext g 60 s1 = (Inl TimeoutError, s2)" by simp
  have nc: "filter (\<lambda>player. lobby_connection (player_heap s2 player) = None) guests = []"
    using assms(3) by (simp add: filter_empty_conv)
  from launch_guests_connected[OF assms(3), of g mn n go]
  obtain s3 where s3: "launch_guests g ?mk guests s2 = (Inr (), s3)"
    "\<forall>p. lobby_connection (player_heap s3 p) =
               map_option (\<lambda>sent. sent @ replicate (count_list guests p)
                   \<lparr>launched_game = g, is_host = False, options = ?mk s2 p\<rparr>)
                 (lobby_connection (player_heap s2 p))" by blast
  have "launch_match ext g host guests ?mk s = (Inl (NotConnectedError [host]), s3)"
    using sent w wh nc s3(1) by (simp add: launch_match_def)
  with s3(2) show ?thesis by blast
qed

theorem hosted_timeout_names_host_and_launches_guests_witness:
  "lobby_connection (player_heap (init_service (\<lambda>i. mk_player i ''p'' 1500 100)
        (\<lambda>r. mk_search [] [])) 1) \<noteq> None
   \<and> fst (launch_match (ext0\<lparr>wait_hosted := (\<lambda>g n s. (Inl TimeoutError, s))\<rparr>) 0 1 [2, 3]
           (make_game_options ''x'' 3 None 0)
           (init_service (\<lambda>i. mk_player i ''p'' 1500 100) (\<lambda>r. mk_search [] [])))
       = Inl (NotConnectedError [1])
   \<and> map (\<lambda>p. map_option (map is_host) (lobby_connection (player_heap
          (snd (launch_match (ext0\<lparr>wait_hosted := (\<lambda>g n s. (Inl TimeoutError, s))\<rparr>) 0 1 [2, 3]
             (make_game_options ''x'' 3 None 0)
             (init_service (\<lambda>i. mk_player i ''p'' 1500 100) (\<lambda>r. mk_search [] [])))) p)))
        [1, 2, 3]
       = [Some [True], Some [False], Some [False]]"
  using hosted_timeout_names_host_and_launches_guests
    [of "init_service (\<lambda>i. mk_player i ''p'' 1500 100) (\<lambda>r. mk_search [] [])" 1
        "ext0\<lparr>wait_hosted := (\<lambda>g n s. (Inl TimeoutError, s))\<rparr>" 0 "''x''" 3 None
        "snd (write_launch_game 1 0 True
                (make_game_options ''x'' 3 None 0
                   (init_service (\<lambda>i. mk_player i ''p'' 1500 100) (\<lambda>r. mk_search [] [])) 1)
                (init_service (\<lambda>i. mk_player i ''p'' 1500 100) (\<lambda>r. mk_search [] [])))"
        "[2, 3]"]
  by (simp add: launch_match_def write_launch_game_def ext0_def init_service_def mk_player_def
      update_player_def)

text \<open>
  When a guest has no connection as the cleanup block runs, the block raises
  \<^verbatim>\<open>NotConnectedError\<close> for the guests without a connection, whatever the outcome of
  the wait for the host, and writes to no guest.
\<close>

lemma hosted_timeout_with_absent_guest:
  assumes "lobby_connection (player_heap s host) \<noteq> None"
    and "wait_hosted ext g 60 (snd (write_launch_game host g True (mk s host) s)) = (r, s2)"
    and "filter (\<lambda>player. lobby_connection (player_heap s2 player) = None) guests \<noteq> []"
  shows "launch_match ext g host guests mk s =
           (Inl (NotConnectedError
              (filter (\<lambda>player. lobby_connection (player_heap s2 player) = None) guests)), s2)"
proof -
  from assms(1) obtain sent where sent: "lobby_connection (player_heap s host) = Some sent"
    by auto
  obtain s1 where w: "write_launch_game host g True (mk s host) s = (Inr (), s1)"
    using write_launch_game_connected[OF sent] by blast
  from assms(2) w have wh: "wait_hosted ext g 60 s1 = (r, s2)" by simp
  show ?thesis using sent w wh assms(3) by (simp add: launch_match_def)
qed

section \<open>Properties of the failure handler\<close>

lemma cancel_match_for_effect:
  "outbox (player_heap (cancel_match_for msg p s) q) =
     outbox (player_heap s q) @ (if q = p then [msg] else [])"
  "state (player_heap (cancel_match_for msg p s) q) =
     (if q = p \<and> state (player_heap s q) = STARTING_AUTOMATCH then IDLE
      else state (player_heap s q))"
  "finished_games (cancel_match_for msg p s) = finished_games s"
  "registered_violations (cancel_match_for msg p s) = registered_violations s"
  "matches_metric (cancel_match_for msg p s) = matches_metric s"
  "logger (cancel_match_for msg p s) = logger s"
  by (auto simp: cancel_match_for_def Let_def write_message_outbox update_player_def
      write_message_def)

lemma fold_cancel_match_for:
  "outbox (player_heap (fold (cancel_match_for msg) ps s) q) =
     outbox (player_heap s q) @ replicate (count_list ps q) msg
   \<and> state (player_heap (fold (cancel_match_for msg) ps s) q) =
       (if q \<in> set ps \<and> state (player_heap s q) = STARTING_AUTOMATCH then IDLE
        else state (player_heap s q))
   \<and> finished_games (fold (cancel_match_for msg) ps s) = finished_games s
   \<and> registered_violations (fold (cancel_match_for msg) ps s) = registered_violations s
   \<and> matches_metric (fold (cancel_match_for msg) ps s) = matches_metric s
   \<and> logger (fold (cancel_match_for msg) ps s) = logger s"
proof (induction ps arbitrary: s)
  case Nil
  then show ?case by simp
next
  case (Cons p ps)
  show ?case
    using Cons.IH[of "cancel_match_for msg p s"]
    by (simp add: cancel_match_for_effect replicate_app_Cons_same)
qed

lemma start_game_failed_effect:
  assumes "is_Exception e" and "e \<noteq> TimeoutError"
    and "start_game_failed queue e game_local apl s1 = (r, s2)"
  shows "finished_games s2 = finished_games s1 @ (case game_local of None \<Rightarrow> [] | Some g \<Rightarrow> [g])
     \<and> (\<forall>p. outbox (player_heap s2 p) =
            outbox (player_heap s1 p) @
            replicate (count_list (case apl of None \<Rightarrow> [] | Some ps \<Rightarrow> ps) p)
              (Match_cancelled (map_option (\<lambda>g. game_id (game_heap s1 g)) game_local)))
     \<and> (\<forall>p. state (player_heap s2 p) =
            (if p \<in> set (case apl of None \<Rightarrow> [] | Some ps \<Rightarrow> ps)
                \<and> state (player_heap s1 p) = STARTING_AUTOMATCH
             then IDLE else state (player_heap s1 p)))
     \<and> (apl \<noteq> None \<or> abandoning_players_of e = [] \<longrightarrow>
          registered_violations s2 = registered_violations s1 @
            (if abandoning_players_of e = [] then [] else [abandoning_players_of e]))
     \<and> matches_metric s2 = matches_metric s1 @ [(queue_name queue, match_launch_of e)]
     \<and> r = (if apl = None then Inl UnboundLocalError else Inr ())"
proof -
  define ab where "ab = abandoning_players_of e"
  define s1' where "s1' = s1\<lparr>logger := logger s1 @
       [case e of NotConnectedError ps \<Rightarrow> Info_setup_timed_out
        | GameClosedError p \<Rightarrow> Info_player_closed p | _ \<Rightarrow> Exception_start_failed],
     matches_metric := matches_metric s1 @ [(queue_name queue, match_launch_of e)]\<rparr>"
  define s2' where "s2' = (case game_local of None \<Rightarrow> s1'
                           | Some g \<Rightarrow> s1'\<lparr>finished_games := finished_games s1' @ [g]\<rparr>)"
  define msg where "msg = Match_cancelled (map_option (\<lambda>g. game_id (game_heap s1 g)) game_local)"
  have unfold: "start_game_failed queue e game_local apl s1 =
      (case apl of
         None \<Rightarrow> (Inl UnboundLocalError, s2')
       | Some all_players \<Rightarrow>
           (let s3 = fold (cancel_match_for msg) all_players s2'
            in if ab \<noteq> [] then
                 (Inr (), s3\<lparr>logger := logger s3 @ [Info_failed_to_connect ab],
                             registered_violations := registered_violations s3 @ [ab]\<rparr>)
               else (Inr (), s3)))"
    using assms(1,2)
    by (cases game_local; cases apl; cases e)
       (simp_all add: start_game_failed_def ab_def abandoning_players_of_def s2'_def s1'_def
          match_launch_of_def msg_def Let_def)
  have s2'_facts: "finished_games s2' = finished_games s1 @
         (case game_local of None \<Rightarrow> [] | Some g \<Rightarrow> [g])"
      "player_heap s2' = player_heap s1"
      "registered_violations s2' = registered_violations s1"
      "matches_metric s2' = matches_metric s1 @ [(queue_name queue, match_launch_of e)]"
    by (cases game_local; simp add: s2'_def s1'_def)+
  show ?thesis
  proof (cases apl)
    case None
    with assms(3) unfold have "r = Inl UnboundLocalError" "s2 = s2'" by simp_all
    then show ?thesis using None s2'_facts by (simp add: msg_def ab_def)
  next
    case (Some all_players)
    let ?s3 = "fold (cancel_match_for msg) all_players s2'"
    note f = fold_cancel_match_for[of msg all_players s2']
    show ?thesis
    proof (cases "ab = []")
      case True
      with assms(3) unfold Some have "r = Inr ()" "s2 = ?s3" by (simp_all add: Let_def)
      then show ?thesis using Some True f s2'_facts by (simp add: msg_def ab_def)
    next
      case False
      with assms(3) unfold Some have "r = Inr ()"
        "s2 = ?s3\<lparr>logger := logger ?s3 @ [Info_failed_to_connect ab],
                     registered_violations := registered_violations ?s3 @ [ab]\<rparr>"
        by (simp_all add: Let_def)
      then show ?thesis using Some False f s2'_facts by (simp add: msg_def ab_def)
    qed
  qed
qed

lemma start_game_try_locals:
  assumes "start_game_try ext team1 team2 queue s = (r, game_local, apl, s1)"
  shows "apl = (if team1 = [] then None else Some (team1 @ team2))"
    and "team1 = [] \<Longrightarrow> r = Inl IndexError"
    and "game_local \<noteq> None \<longleftrightarrow>
           team1 \<noteq> []
           \<and> (\<exists>created. fst (create_ladder_game ext (hd team1) (team1 @ team2) queue s)
                          = Inr created)"
  using assms
  by (auto simp: start_game_try_def Let_def split: list.splits prod.splits sum.splits)

text \<open>
  C4, as stated, fails for a generic timeout: when the history query raises an
  \<^verbatim>\<open>asyncio.TimeoutError\<close> that is not a \<^verbatim>\<open>NotConnectedError\<close>, the handler's assertion
  fails before any cleanup, so \<^verbatim>\<open>start_game\<close> ends with \<^verbatim>\<open>AssertionError\<close> and the
  players are sent no \<^verbatim>\<open>match_cancelled\<close> and stay in the starting state.  It fails
  also for a cancellation: a \<^verbatim>\<open>CancelledError\<close> raised by the wait for the host is not an
  \<^verbatim>\<open>Exception\<close> and passes the handler by, with the game created and not finished,
  nobody sent \<^verbatim>\<open>match_cancelled\<close> and the players left in the starting state.
\<close>

theorem generic_timeout_skips_cleanup:
  "(let r = start_game (ext0\<lparr>query_game_history := (\<lambda>i q n. Inl TimeoutError)\<rparr>) [1] [2]
              (mk_queue ''ladder1v1'' 1 1000)
              (init_service (\<lambda>i. (mk_player i ''p'' 1500 100)\<lparr>state := STARTING_AUTOMATCH\<rparr>)
                 (\<lambda>r. mk_search [] []))
    in (fst r, map (\<lambda>p. (outbox (player_heap (snd r) p), state (player_heap (snd r) p))) [1, 2]))
   = (Inl AssertionError, [([], STARTING_AUTOMATCH), ([], STARTING_AUTOMATCH)])
   \<and> (let r = start_game (ext0\<lparr>wait_hosted := (\<lambda>g n s. (Inl CancelledError, s))\<rparr>) [1] [2]
              (mk_queue ''ladder1v1'' 1 1000)
              (init_service (\<lambda>i. (mk_player i ''p'' 1500 100)\<lparr>state := STARTING_AUTOMATCH\<rparr>)
                 (\<lambda>r. mk_search [] []))
    in (fst r, game_count (snd r), finished_games (snd r),
        map (\<lambda>p. state (player_heap (snd r) p)) [1, 2],
        filter (\<lambda>p. Match_cancelled (Some 7) \<in> set (outbox (player_heap (snd r) p))) [1, 2]))
   = (Inl CancelledError, 1, [], [STARTING_AUTOMATCH, STARTING_AUTOMATCH], [])"
  by (simp add: start_game_def priv_start_game_def start_game_try_def create_ladder_game_def
      setup_and_launch_def launch_match_def write_launch_game_def
      slot_order_def assign_slot_options_def assign_player_option_def update_player_def
      write_message_def make_game_options_def get_player_option_def
      start_game_failed_def ext0_def init_service_def mk_player_def mk_queue_def Let_def)

text \<open>
  C4, amended: for every failure of the \<^verbatim>\<open>try\<close> block of \<^verbatim>\<open>_start_game\<close> (called
  through \<^verbatim>\<open>start_game\<close>, with teams of equal size) that is an \<^verbatim>\<open>Exception\<close> other
  than a generic timeout: \<^verbatim>\<open>on_game_finish\<close> is awaited on the game iff the local
  \<^verbatim>\<open>game\<close> is bound, which it is iff the game service created the game; every player
  of both teams is written
  \<^verbatim>\<open>match_cancelled\<close> with the game's id (null without a game), once per occurrence in
  the teams, and nobody else is written to; exactly the players of the teams that are in
  the starting state are reset to idle; violations are registered for the players the
  error names (the not-connected players, the player who closed the game, nobody
  otherwise; no call when the list is empty); and the metric of the kind of failure is
  incremented.
\<close>

theorem start_game_failure_cleanup:
  assumes "length team1 = length team2"
    and "start_game_try ext team1 team2 queue s = (Inl e, game_local, all_players_local, s1)"
    and "is_Exception e" and "e \<noteq> TimeoutError"
  shows "(let s2 = snd (start_game ext team1 team2 queue s)
          in finished_games s2 =
               finished_games s1 @ (case game_local of None \<Rightarrow> [] | Some g \<Rightarrow> [g])
           \<and> (\<forall>p. outbox (player_heap s2 p) =
                  outbox (player_heap s1 p) @
                  replicate (count_list (team1 @ team2) p)
                    (Match_cancelled (map_option (\<lambda>g. game_id (game_heap s1 g)) game_local)))
           \<and> (\<forall>p. state (player_heap s2 p) =
                  (if p \<in> set (team1 @ team2) \<and> state (player_heap s1 p) = STARTING_AUTOMATCH
                   then IDLE else state (player_heap s1 p)))
           \<and> registered_violations s2 = registered_violations s1 @
                (if abandoning_players_of e = [] then [] else [abandoning_players_of e])
           \<and> matches_metric s2 = matches_metric s1 @ [(queue_name queue, match_launch_of e)]
           \<and> (game_local \<noteq> None \<longleftrightarrow>
                 team1 \<noteq> []
                 \<and> (\<exists>created. fst (create_ladder_game ext (hd team1) (team1 @ team2) queue s)
                                = Inr created)))"
proof -
  obtain r s2 where h: "start_game_failed queue e game_local all_players_local s1 = (r, s2)"
    by (cases "start_game_failed queue e game_local all_players_local s1")
  have sg: "snd (start_game ext team1 team2 queue s) = s2"
    using assms(1,2) h by (simp add: start_game_def priv_start_game_def)
  note loc = start_game_try_locals[OF assms(2)]
  have players: "(case all_players_local of None \<Rightarrow> [] | Some ps \<Rightarrow> ps) = team1 @ team2"
    using loc(1) assms(1) by (cases team1) auto
  have ab: "all_players_local \<noteq> None \<or> abandoning_players_of e = []"
  proof (cases "team1 = []")
    case True
    with loc(2) have "e = IndexError" by simp
    then show ?thesis by (simp add: abandoning_players_of_def)
  next
    case False
    with loc(1) show ?thesis by simp
  qed
  from start_game_failed_effect[OF assms(3,4) h] ab loc(3)
  show ?thesis unfolding Let_def sg players by blast
qed

theorem start_game_failure_cleanup_witness:
  "(let s = init_service (\<lambda>i. (mk_player i ''p'' 1500 100)
                \<lparr>state := STARTING_AUTOMATCH,
                 lobby_connection := (if i = 1 then None else Some [])\<rparr>) (\<lambda>r. mk_search [] []);
        q = mk_queue ''ladder1v1'' 1 1000;
        s2 = snd (start_game ext0 [1] [2] q s)
    in fst (start_game_try ext0 [1] [2] q s) = Inl (NotConnectedError [1])
     \<and> fst (snd (start_game_try ext0 [1] [2] q s)) = Some 0
     \<and> finished_games s2 = [0]
     \<and> map (\<lambda>p. (outbox (player_heap s2 p), state (player_heap s2 p))) [1, 2]
         = [([Match_cancelled (Some 7)], IDLE), ([Match_cancelled (Some 7)], IDLE)]
     \<and> registered_violations s2 = [[1]]
     \<and> matches_metric s2 = [(''ladder1v1'', TIMED_OUT)])"
proof -
  let ?s = "init_service (\<lambda>i. (mk_player i ''p'' 1500 100)
                \<lparr>state := STARTING_AUTOMATCH,
                 lobby_connection := (if i = 1 then None else Some [])\<rparr>) (\<lambda>r. mk_search [] [])"
  let ?q = "mk_queue ''ladder1v1'' 1 1000"
  obtain gl apl s1 where t: "start_game_try ext0 [1] [2] ?q ?s = (Inl (NotConnectedError [1]), gl, apl, s1)"
    and gl: "gl = Some 0" and s1: "finished_games s1 = []" "registered_violations s1 = []"
      "matches_metric s1 = []" "game_id (game_heap s1 0) = 7"
      "\<forall>p. outbox (player_heap s1 p) = [] \<and> state (player_heap s1 p) = STARTING_AUTOMATCH"
    by (simp add: start_game_try_def create_ladder_game_def setup_and_launch_def
        launch_match_def slot_order_def assign_slot_options_def assign_player_option_def
        update_player_def ext0_def init_service_def mk_player_def mk_queue_def Let_def)
  from start_game_failure_cleanup[OF _ t]
  show ?thesis unfolding Let_def
    using t gl s1
    by (simp add: abandoning_players_of_def match_launch_of_def mk_queue_def)
qed

section \<open>Properties of the pop iteration\<close>

lemma matches_searches_simps [simp]:
  "matches_searches [] = {}"
  "matches_searches (m # ms) = match_searches m \<union> matches_searches ms"
  "matches_searches (xs @ ys) = matches_searches xs \<union> matches_searches ys"
  by (auto simp: matches_searches_def match_searches_def)











section \<open>Properties of the pop timer\<close>

lemma pop_try_undisturbed:
  assumes "undisturbed r"
  shows "pop_try r st =
           (round_exception r,
            fst st,
            snd st @ [Wait_next_pop] @ (if next_pop_result r = None then [Pop_iteration] else []))"
  using assms
  by (cases "next_pop_result r")
     (simp_all add: pop_try_def await_step_def undisturbed_def round_exception_def Let_def)

lemma undisturbed_exception:
  "undisturbed r \<Longrightarrow> round_exception r = Some e \<Longrightarrow> is_Exception e"
  by (auto simp: undisturbed_def round_exception_def split: option.splits)

lemma is_Exception_not_cancelled: "is_Exception e \<Longrightarrow> e \<noteq> CancelledError"
  by (cases e) simp_all

lemma pop_timer_undisturbed:
  "list_all undisturbed rounds \<Longrightarrow> is_running (fst st) \<Longrightarrow>
     \<exists>s'. priv_queue_pop_timer rounds st =
            (Suspended, s', snd st @ concat (map round_actions rounds))
        \<and> is_running s'
        \<and> logger s' = logger (fst st) @
             replicate (length (filter (\<lambda>r. round_exception r \<noteq> None) rounds))
               Exception_pop_timer"
proof (induction rounds arbitrary: st)
  case Nil
  then show ?case by (cases st) simp
next
  case (Cons r rounds)
  from Cons.prems have u: "undisturbed r" and us: "list_all undisturbed rounds" by simp_all
  note pt = pop_try_undisturbed[OF u, of st]
  let ?tr1 = "snd st @ [Wait_next_pop] @ (if next_pop_result r = None then [Pop_iteration] else [])"
  show ?case
  proof (cases "round_exception r")
    case None
    let ?st1 = "(fst st, ?tr1)"
    have run1: "priv_queue_pop_timer (r # rounds) st = priv_queue_pop_timer rounds ?st1"
      using Cons.prems(2) pt None by simp
    have "is_running (fst ?st1)" using Cons.prems(2) by simp
    from Cons.IH[OF us this]
    obtain s' where s': "priv_queue_pop_timer rounds ?st1 =
            (Suspended, s', snd ?st1 @ concat (map round_actions rounds))"
      "is_running s'"
      "logger s' = logger (fst ?st1) @
             replicate (length (filter (\<lambda>r. round_exception r \<noteq> None) rounds))
               Exception_pop_timer" by blast
    have ra: "round_actions r = [Wait_next_pop] @
        (if next_pop_result r = None then [Pop_iteration] else [])"
      using None by (simp add: round_actions_def)
    have "priv_queue_pop_timer (r # rounds) st =
            (Suspended, s', snd st @ concat (map round_actions (r # rounds)))"
      unfolding run1 s'(1) by (simp add: ra)
    moreover have "logger s' = logger (fst st) @
             replicate (length (filter (\<lambda>r. round_exception r \<noteq> None) (r # rounds)))
               Exception_pop_timer"
      using s'(3) None by simp
    ultimately show ?thesis using s'(2) by blast
  next
    case (Some e)
    from undisturbed_exception[OF u Some] have ex: "is_Exception e" .
    then have nc: "e \<noteq> CancelledError" by (rule is_Exception_not_cancelled)
    let ?st3 = "((fst st)\<lparr>logger := logger (fst st) @ [Exception_pop_timer]\<rparr>,
                 ?tr1 @ [Log_exception, Sleep 1])"
    have slp: "shutdown_while_sleeping r = False" "sleep_result r = None"
      using u by (simp_all add: undisturbed_def)
    have run1: "priv_queue_pop_timer (r # rounds) st = priv_queue_pop_timer rounds ?st3"
      using Cons.prems(2) pt Some ex nc slp by (simp add: await_step_def Let_def)
    have "is_running (fst ?st3)" using Cons.prems(2) by simp
    from Cons.IH[OF us this]
    obtain s' where s': "priv_queue_pop_timer rounds ?st3 =
            (Suspended, s', snd ?st3 @ concat (map round_actions rounds))"
      "is_running s'"
      "logger s' = logger (fst ?st3) @
             replicate (length (filter (\<lambda>r. round_exception r \<noteq> None) rounds))
               Exception_pop_timer" by blast
    have ra: "round_actions r = [Wait_next_pop] @
        (if next_pop_result r = None then [Pop_iteration] else []) @ [Log_exception, Sleep 1]"
      using Some by (simp add: round_actions_def)
    have "priv_queue_pop_timer (r # rounds) st =
            (Suspended, s', snd st @ concat (map round_actions (r # rounds)))"
      unfolding run1 s'(1) by (simp add: ra)
    moreover have "logger s' = logger (fst st) @
             replicate (length (filter (\<lambda>r. round_exception r \<noteq> None) (r # rounds)))
               Exception_pop_timer"
      using s'(3) Some by (simp add: replicate_app_Cons_same)
    ultimately show ?thesis using s'(2) by blast
  qed
qed

lemma pop_timer_cancelled:
  assumes "is_running (fst st)" and "round_exception r = Some CancelledError"
  shows "priv_queue_pop_timer (r # rest) st = (Returned, log_stopped (snd (pop_try r st)))"
    and "next_pop_result r = Some CancelledError \<Longrightarrow>
           snd (snd (pop_try r st)) =
             snd st @ [Wait_next_pop] @ (if shutdown_while_waiting r then [Shutdown] else [])"
proof -
  have "fst (pop_try r st) = Some CancelledError"
    using assms(2)
    by (cases "next_pop_result r") (simp_all add: pop_try_def round_exception_def Let_def)
  then show "priv_queue_pop_timer (r # rest) st = (Returned, log_stopped (snd (pop_try r st)))"
    using assms(1) by (cases "pop_try r st") simp
  show "snd (snd (pop_try r st)) =
             snd st @ [Wait_next_pop] @ (if shutdown_while_waiting r then [Shutdown] else [])"
    if "next_pop_result r = Some CancelledError"
    using that by (simp add: pop_try_def await_step_def Let_def)
qed

lemma pop_timer_not_running:
  "\<not> is_running (fst st) \<Longrightarrow> priv_queue_pop_timer rounds st = (Returned, log_stopped st)"
  by (cases rounds) simp_all

text \<open>
  C9, as stated, fails in two places.  \<^verbatim>\<open>shutdown\<close> only clears the flag, which the loop
  tests at the top of a pass: when it runs while the loop waits in \<^verbatim>\<open>next_pop\<close>, the
  wait goes on and the pop of that pass still runs before the loop ends.  And an exception
  outside the \<^verbatim>\<open>Exception\<close> hierarchy other than \<^verbatim>\<open>CancelledError\<close> is caught by
  neither handler: it ends the loop, unlogged.
\<close>

theorem shutdown_while_waiting_still_pops:
  "(case priv_queue_pop_timer [quiet_round\<lparr>shutdown_while_waiting := True\<rparr>, quiet_round]
           (init_service (\<lambda>i. mk_player i ''p'' 1500 100) (\<lambda>r. mk_search [] []), []) of
      (status, s', actions) \<Rightarrow> (status, actions))
     = (Returned, [Wait_next_pop, Shutdown, Pop_iteration, Log_stopped])
   \<and> (case priv_queue_pop_timer
             [quiet_round\<lparr>pop_result := Some (OtherBaseException ''KeyboardInterrupt'')\<rparr>,
              quiet_round]
           (init_service (\<lambda>i. mk_player i ''p'' 1500 100) (\<lambda>r. mk_search [] []), []) of
      (status, s', actions) \<Rightarrow> (status, actions, logger s'))
     = (Raised (OtherBaseException ''KeyboardInterrupt''), [Wait_next_pop, Pop_iteration], [])"
  by (simp add: quiet_round_def pop_try_def await_step_def shutdown_def log_stopped_def
      init_service_def Let_def)

text \<open>
  C9, amended: from a running service, (1) over any passes in which every exception raised
  by the timer wait or the pop is an \<^verbatim>\<open>Exception\<close>, nothing is cancelled and
  \<^verbatim>\<open>shutdown\<close> does not run, the loop never ends: each pass waits for the timer and pops,
  each exception is logged and followed by a sleep of one second, and then the next pass
  starts; (2) a \<^verbatim>\<open>CancelledError\<close> raised by the timer wait ends the loop without a pop,
  and one raised by the pop ends it after that pop; (3) when \<^verbatim>\<open>shutdown\<close> runs during a
  pass that raises nothing, that pass is completed, its pop included, and the loop ends
  at the next test of the flag; (4) once the flag is cleared, the loop ends at the test
  without a further pass.
\<close>

theorem pop_timer_loop_outcomes:
  assumes "is_running (fst st)"
  shows "(list_all undisturbed rounds \<longrightarrow>
            (\<exists>s'. priv_queue_pop_timer rounds st =
                     (Suspended, s', snd st @ concat (map round_actions rounds))
                 \<and> is_running s'
                 \<and> logger s' = logger (fst st) @
                      replicate (length (filter (\<lambda>r. round_exception r \<noteq> None) rounds))
                        Exception_pop_timer))
       \<and> (next_pop_result r1 = Some CancelledError \<longrightarrow>
            (\<exists>s'. priv_queue_pop_timer (r1 # rest) st =
                     (Returned, s',
                      snd st @ [Wait_next_pop] @
                      (if shutdown_while_waiting r1 then [Shutdown] else []) @ [Log_stopped])))
       \<and> (next_pop_result r2 = None \<and> pop_result r2 = Some CancelledError \<longrightarrow>
            (\<exists>s'. priv_queue_pop_timer (r2 # rest) st =
                     (Returned, s',
                      snd st @ [Wait_next_pop] @
                      (if shutdown_while_waiting r2 then [Shutdown] else []) @ [Pop_iteration] @
                      (if shutdown_while_popping r2 then [Shutdown] else []) @ [Log_stopped])))
       \<and> (round_exception r3 = None \<and> (shutdown_while_waiting r3 \<or> shutdown_while_popping r3)
            \<longrightarrow>
            (\<exists>s'. priv_queue_pop_timer (r3 # rest) st =
                     (Returned, s',
                      snd st @ [Wait_next_pop] @
                      (if shutdown_while_waiting r3 then [Shutdown] else []) @ [Pop_iteration] @
                      (if shutdown_while_popping r3 then [Shutdown] else []) @ [Log_stopped])))
       \<and> priv_queue_pop_timer rounds (shutdown (fst st), snd st) =
            (Returned, log_stopped (shutdown (fst st), snd st))"
proof (intro conjI impI)
  assume "list_all undisturbed rounds"
  from pop_timer_undisturbed[OF this assms]
  show "\<exists>s'. priv_queue_pop_timer rounds st =
                     (Suspended, s', snd st @ concat (map round_actions rounds))
                 \<and> is_running s'
                 \<and> logger s' = logger (fst st) @
                      replicate (length (filter (\<lambda>r. round_exception r \<noteq> None) rounds))
                        Exception_pop_timer" .
next
  assume c: "next_pop_result r1 = Some CancelledError"
  then have re: "round_exception r1 = Some CancelledError" by (simp add: round_exception_def)
  show "\<exists>s'. priv_queue_pop_timer (r1 # rest) st =
                     (Returned, s',
                      snd st @ [Wait_next_pop] @
                      (if shutdown_while_waiting r1 then [Shutdown] else []) @ [Log_stopped])"
    unfolding pop_timer_cancelled(1)[OF assms re]
    using c by (simp add: log_stopped_def pop_try_def await_step_def Let_def)
next
  assume c: "next_pop_result r2 = None \<and> pop_result r2 = Some CancelledError"
  then have re: "round_exception r2 = Some CancelledError" by (simp add: round_exception_def)
  show "\<exists>s'. priv_queue_pop_timer (r2 # rest) st =
                     (Returned, s',
                      snd st @ [Wait_next_pop] @
                      (if shutdown_while_waiting r2 then [Shutdown] else []) @ [Pop_iteration] @
                      (if shutdown_while_popping r2 then [Shutdown] else []) @ [Log_stopped])"
    unfolding pop_timer_cancelled(1)[OF assms re]
    using c by (simp add: log_stopped_def pop_try_def await_step_def Let_def)
next
  assume c: "round_exception r3 = None \<and> (shutdown_while_waiting r3 \<or> shutdown_while_popping r3)"
  then have n: "next_pop_result r3 = None" "pop_result r3 = None"
    by (auto simp: round_exception_def split: option.splits)
  obtain s1 tr1 where pt: "pop_try r3 st = (None, s1, tr1)"
    and s1: "\<not> is_running s1"
    and tr1: "tr1 = snd st @ [Wait_next_pop] @
                      (if shutdown_while_waiting r3 then [Shutdown] else []) @ [Pop_iteration] @
                      (if shutdown_while_popping r3 then [Shutdown] else [])"
    using c n by (auto simp: pop_try_def await_step_def shutdown_def Let_def)
  have "priv_queue_pop_timer (r3 # rest) st = (Returned, log_stopped (s1, tr1))"
    using assms pt s1 by (simp add: pop_timer_not_running)
  then show "\<exists>s'. priv_queue_pop_timer (r3 # rest) st =
                     (Returned, s',
                      snd st @ [Wait_next_pop] @
                      (if shutdown_while_waiting r3 then [Shutdown] else []) @ [Pop_iteration] @
                      (if shutdown_while_popping r3 then [Shutdown] else []) @ [Log_stopped])"
    by (simp add: log_stopped_def tr1)
next
  show "priv_queue_pop_timer rounds (shutdown (fst st), snd st) =
            (Returned, log_stopped (shutdown (fst st), snd st))"
    by (rule pop_timer_not_running) (simp add: shutdown_def)
qed

theorem pop_timer_loop_outcomes_witness:
  "is_running (init_service (\<lambda>i. mk_player i ''p'' 1500 100) (\<lambda>r. mk_search [] []))
   \<and> list_all undisturbed [quiet_round\<lparr>pop_result := Some (RuntimeError ''boom'')\<rparr>, quiet_round]
   \<and> (case priv_queue_pop_timer
             [quiet_round\<lparr>pop_result := Some (RuntimeError ''boom'')\<rparr>, quiet_round]
             (init_service (\<lambda>i. mk_player i ''p'' 1500 100) (\<lambda>r. mk_search [] []), []) of
        (status, s', actions) \<Rightarrow> (status, actions, logger s'))
       = (Suspended,
          [Wait_next_pop, Pop_iteration, Log_exception, Sleep 1, Wait_next_pop, Pop_iteration],
          [Exception_pop_timer])
   \<and> (case priv_queue_pop_timer
             [quiet_round\<lparr>next_pop_result := Some CancelledError\<rparr>, quiet_round]
             (init_service (\<lambda>i. mk_player i ''p'' 1500 100) (\<lambda>r. mk_search [] []), []) of
        (status, s', actions) \<Rightarrow> (status, actions))
       = (Returned, [Wait_next_pop, Log_stopped])
   \<and> (case priv_queue_pop_timer
             [quiet_round\<lparr>pop_result := Some CancelledError\<rparr>, quiet_round]
             (init_service (\<lambda>i. mk_player i ''p'' 1500 100) (\<lambda>r. mk_search [] []), []) of
        (status, s', actions) \<Rightarrow> (status, actions))
       = (Returned, [Wait_next_pop, Pop_iteration, Log_stopped])
   \<and> (case priv_queue_pop_timer [quiet_round\<lparr>shutdown_while_popping := True\<rparr>, quiet_round]
             (init_service (\<lambda>i. mk_player i ''p'' 1500 100) (\<lambda>r. mk_search [] []), []) of
        (status, s', actions) \<Rightarrow> (status, actions))
       = (Returned, [Wait_next_pop, Pop_iteration, Shutdown, Log_stopped])"
  using pop_timer_loop_outcomes
    [of "(init_service (\<lambda>i. mk_player i ''p'' 1500 100) (\<lambda>r. mk_search [] []), [])"
        "[quiet_round\<lparr>pop_result := Some (RuntimeError ''boom'')\<rparr>, quiet_round]"
        "quiet_round\<lparr>next_pop_result := Some CancelledError\<rparr>" "[quiet_round]"
        "quiet_round\<lparr>pop_result := Some CancelledError\<rparr>"
        "quiet_round\<lparr>shutdown_while_popping := True\<rparr>"]
  by (simp add: quiet_round_def pop_try_def await_step_def shutdown_def log_stopped_def
      init_service_def undisturbed_def Let_def)

end
